theory Spec2Isabelle
  imports Complex_Main "HOL-Library.Sublist" "HOL-Library.AList" "HOL-Library.Word"
begin

section \<open>Python strings and POSIX paths\<close>

text \<open>
  The cache layer of \<^verbatim>\<open>qagmire/data.py\<close> computes its paths with \<^verbatim>\<open>str\<close> methods and
  \<^verbatim>\<open>os.path\<close> functions.  A Python \<^verbatim>\<open>str\<close> is modelled as a \<^typ>\<open>string\<close>; the path
  functions are those of \<^verbatim>\<open>posixpath\<close>, so \<^verbatim>\<open>os.sep\<close> is the slash.
\<close>

definition os_sep :: char where
  "os_sep = CHR ''/''"

text \<open>\<^verbatim>\<open>s.split(c)\<close> for a one-character separator: always at least one piece.\<close>

fun str_split :: "char \<Rightarrow> string \<Rightarrow> string list" where
  "str_split c [] = [[]]"
| "str_split c (x # xs) =
     (if x = c then [] # str_split c xs
      else (case str_split c xs of
              [] \<Rightarrow> [[x]]
            | y # ys \<Rightarrow> (x # y) # ys))"

text \<open>\<^verbatim>\<open>s.join(parts)\<close>.\<close>

fun str_join :: "string \<Rightarrow> string list \<Rightarrow> string" where
  "str_join s [] = []"
| "str_join s [x] = x"
| "str_join s (x # y # ys) = x @ s @ str_join s (y # ys)"

text \<open>
  \<^verbatim>\<open>s.replace(old, new)\<close>: the non-overlapping occurrences of \<^verbatim>\<open>old\<close>, found from the
  left in one pass, are replaced.  With an empty \<^verbatim>\<open>old\<close> Python puts \<^verbatim>\<open>new\<close> before every
  character and at the end.
\<close>

function str_replace :: "string \<Rightarrow> string \<Rightarrow> string \<Rightarrow> string" where
  "str_replace old new s =
     (if old = [] then new @ concat (map (\<lambda>c. c # new) s)
      else if s = [] then []
      else if prefix old s then new @ str_replace old new (drop (length old) s)
      else hd s # str_replace old new (tl s))"
  by pat_completeness auto
termination
  by (relation "measure (\<lambda>(old, new, s). length s)") auto

declare str_replace.simps [simp del]

text \<open>The slice \<^verbatim>\<open>xs[-3:]\<close>.\<close>

definition last3 :: "'a list \<Rightarrow> 'a list" where
  "last3 xs = drop (length xs - 3) xs"

text \<open>
  \<^verbatim>\<open>posixpath.normpath\<close>: empty and \<^verbatim>\<open>.\<close> components are dropped, \<^verbatim>\<open>..\<close> cancels the
  component before it where there is one to cancel, and one or exactly two leading
  slashes are kept.
\<close>

definition norm_step :: "nat \<Rightarrow> string list \<Rightarrow> string \<Rightarrow> string list" where
  "norm_step initial_slashes new_comps part =
     (if part = [] \<or> part = ''.'' then new_comps
      else if part \<noteq> ''..'' \<or> (initial_slashes = 0 \<and> new_comps = [])
              \<or> (new_comps \<noteq> [] \<and> last new_comps = ''..'')
        then new_comps @ [part]
      else if new_comps \<noteq> [] then butlast new_comps
      else new_comps)"

definition normpath :: "string \<Rightarrow> string" where
  "normpath path =
     (if path = [] then ''.''
      else
        let initial_slashes =
              (if prefix ''/'' path
               then (if prefix ''//'' path \<and> \<not> prefix ''///'' path then 2 else 1)
               else (0::nat));
            comps = foldl (norm_step initial_slashes) [] (str_split os_sep path);
            path' = replicate initial_slashes os_sep @ str_join [os_sep] comps
        in if path' = [] then ''.'' else path')"

text \<open>
  \<^verbatim>\<open>posixpath.join(a, *p)\<close>: a component that starts with a slash restarts the path,
  and a slash is put between two parts unless the path so far is empty or ends in one.
\<close>

definition join_step :: "string \<Rightarrow> string \<Rightarrow> string" where
  "join_step path b =
     (if prefix [os_sep] b then b
      else if path = [] \<or> suffix [os_sep] path then path @ b
      else path @ [os_sep] @ b)"

definition os_path_join :: "string \<Rightarrow> string list \<Rightarrow> string" where
  "os_path_join a p = foldl join_step a p"

text \<open>
  \<^verbatim>\<open>posixpath.basename\<close> is what follows the last slash.  \<^verbatim>\<open>posixpath.dirname\<close> is what
  precedes it, without its trailing slashes unless it consists of slashes only.
\<close>

definition basename :: "string \<Rightarrow> string" where
  "basename p = rev (takeWhile (\<lambda>c. c \<noteq> os_sep) (rev p))"

definition dirname :: "string \<Rightarrow> string" where
  "dirname p =
     (let head = take (length p - length (basename p)) p
      in if head \<noteq> [] \<and> list_ex (\<lambda>c. c \<noteq> os_sep) head
         then rev (dropWhile (\<lambda>c. c = os_sep) (rev head))
         else head)"

text \<open>
  \<^verbatim>\<open>posixpath.splitext\<close>: the extension starts at the last dot of the base name, provided
  a character other than a dot stands before that dot in the base name; otherwise the
  extension is empty.
\<close>

definition splitext :: "string \<Rightarrow> string \<times> string" where
  "splitext p =
     (let tail = basename p;
          ext = CHR ''.'' # rev (takeWhile (\<lambda>c. c \<noteq> CHR ''.'') (rev tail));
          stem = take (length tail - length ext) tail
      in if CHR ''.'' \<in> set tail \<and> list_ex (\<lambda>c. c \<noteq> CHR ''.'') stem
         then (take (length p - length ext) p, ext)
         else (p, []))"

section \<open>The canonical cache path\<close>

text \<open>
  Lines 86 to 91 of \<^verbatim>\<open>ViaNetCDF.single_via_netcdf\<close>: the last three components of the
  normalised source path are joined onto the store, the extension is removed, and the
  table name (the reader's \<^verbatim>\<open>__name__\<close> with every \<^verbatim>\<open>read_\<close> removed) and \<^verbatim>\<open>.nc\<close> are
  appended.
\<close>

definition table_name :: "string \<Rightarrow> string" where
  "table_name read_function_name = str_replace ''read_'' [] read_function_name"

definition cache_path :: "string \<Rightarrow> string \<Rightarrow> string \<Rightarrow> string" where
  "cache_path netcdf_store read_function_name fn =
     (let fn_netcdf = os_path_join netcdf_store (last3 (str_split os_sep (normpath fn)));
          table = table_name read_function_name;
          fn_netcdf = fst (splitext fn_netcdf)
      in fn_netcdf @ ''_'' @ table @ ''.nc'')"

section \<open>Tables, columns and labelled datasets\<close>

text \<open>
  A column of a FITS table is an array whose first axis runs over the rows.  It is
  modelled with what the readers touch: the byte order of its dtype, the shape of one
  row's cell, the elements of every row as they lie in memory (each element its bytes
  in memory order), the mask, and the unit, which astropy leaves \<^verbatim>\<open>None\<close> where the
  file has none.  The dtype of one-byte numbers, of booleans and of byte strings has no
  byte order, which numpy writes \<^verbatim>\<open>|\<close>.  astropy reads a column as a masked column
  when it holds a NaN or the null value that the file declares for it, and marks these
  elements in the mask, row by row; no element of a plain column is marked.
\<close>

datatype byteorder = LittleEndian | BigEndian | NotApplicable

type_synonym byte = "8 word"

record column =
  byte_order :: byteorder
  cell_shape :: "nat list"
  cells :: "byte list list list"
  mask :: "bool list list"
  unit_attr :: "string option"

definition masked_at :: "column \<Rightarrow> nat \<Rightarrow> nat \<Rightarrow> bool" where
  "masked_at c i j = (i < length (mask c) \<and> j < length (mask c ! i) \<and> mask c ! i ! j)"

definition has_masked :: "column \<Rightarrow> bool" where
  "has_masked c = list_ex (list_ex (\<lambda>m. m)) (mask c)"

type_synonym table = "(string \<times> column) list"

text \<open>
  A FITS file: its header-data units in the order of the file, each under its name as
  astropy compares names, in upper case; a unit holds a table or something else, as
  the primary unit does.  The disk maps a path to the file there.
\<close>

datatype hdu = TableHDU table | ImageHDU

type_synonym fits = "(string \<times> hdu) list"

type_synonym disk = "string \<Rightarrow> fits option"

datatype error =
    FileNotFoundError
  | FileExistsError
  | KeyError
  | AssertionError
  | ValueError
  | MissingDimensionsError
  | OSError

text \<open>
  \<^verbatim>\<open>ndarray.newbyteorder()\<close> is a view of the same memory whose dtype has the opposite
  byte order; \<^verbatim>\<open>ndarray.byteswap()\<close> is a copy with the bytes of every element reversed
  and the dtype kept.  A dtype without byte order stays as it is under the first, and
  its elements, single bytes or byte strings, stay as they are under the second.
\<close>

fun swapped :: "byteorder \<Rightarrow> byteorder" where
  "swapped LittleEndian = BigEndian"
| "swapped BigEndian = LittleEndian"
| "swapped NotApplicable = NotApplicable"

definition newbyteorder :: "column \<Rightarrow> column" where
  "newbyteorder c = c\<lparr>byte_order := swapped (byte_order c)\<rparr>"

definition byteswap :: "column \<Rightarrow> column" where
  "byteswap c =
     (if byte_order c = NotApplicable then c
      else c\<lparr>cells := map (map rev) (cells c)\<rparr>)"

text \<open>
  What an element denotes is fixed by its bytes read in the order of the dtype, here
  most significant byte first; \<open>logical\<close> is the array of these byte strings, the
  column's contents independent of the layout in memory.
\<close>

fun significant :: "byteorder \<Rightarrow> byte list \<Rightarrow> byte list" where
  "significant BigEndian bs = bs"
| "significant LittleEndian bs = rev bs"
| "significant NotApplicable bs = bs"

definition logical :: "column \<Rightarrow> byte list list list" where
  "logical c = map (map (significant (byte_order c))) (cells c)"

text \<open>\<^verbatim>\<open>dtype.isnative\<close> on a machine of the given byte order.\<close>

definition is_native :: "byteorder \<Rightarrow> column \<Rightarrow> bool" where
  "is_native native c = (byte_order c = native \<or> byte_order c = NotApplicable)"

text \<open>
  The floating-point arithmetic of numpy on the elements is a parameter: how the bytes
  of an element denote a number, the sum of a list of numbers, the division of a
  number by a count, rounding to three decimals and the comparison \<^verbatim>\<open>==\<close>.  Nothing is
  assumed of these operations, so what is proved holds of IEEE floating point as of
  any other arithmetic.
\<close>

record 'v numpy =
  np_decode :: "byte list \<Rightarrow> 'v"
  np_sum :: "'v list \<Rightarrow> 'v"
  np_divide :: "'v \<Rightarrow> nat \<Rightarrow> 'v"
  np_round3 :: "'v \<Rightarrow> 'v"
  np_equal :: "'v \<Rightarrow> 'v \<Rightarrow> bool"

definition numbers :: "'v numpy \<Rightarrow> column \<Rightarrow> 'v list list" where
  "numbers np c = map (map (np_decode np)) (logical c)"

text \<open>
  A variable of a dataset holds a column, an array computed from one, in which a
  masked element is \<open>None\<close>, or a list of labels, under an ordered list of dimension
  names.  xarray keeps the array of a column as it is unless an element of it is
  masked: then it holds a new array, with a fill value in the place of every masked
  element; of this array the model keeps only which column it was made from.
\<close>

datatype 'v payload =
    Column column
  | Filled column
  | Array "nat list" "'v option list"
  | Labels "string list"

fun ndim :: "'v payload \<Rightarrow> nat" where
  "ndim (Column c) = Suc (length (cell_shape c))"
| "ndim (Filled c) = Suc (length (cell_shape c))"
| "ndim (Array shape xs) = length shape"
| "ndim (Labels ls) = 1"

fun as_compatible_data :: "'v payload \<Rightarrow> 'v payload" where
  "as_compatible_data (Column c) = (if has_masked c then Filled c else Column c)"
| "as_compatible_data p = p"

record 'v variable =
  dims :: "string list"
  payload :: "'v payload"
  attrs :: "(string \<times> string) list"

record 'v dataset =
  ds_data_vars :: "(string \<times> 'v variable) list"
  ds_coords :: "(string \<times> 'v variable) list"

text \<open>
  \<^verbatim>\<open>xr.Variable(dims, data, attrs)\<close> refuses a list of dimension names whose length is
  not the number of axes of the data.
\<close>

definition Variable :: "string list \<Rightarrow> 'v payload \<Rightarrow> (string \<times> string) list \<Rightarrow> error + 'v variable" where
  "Variable ds p as =
     (if length ds = ndim p then Inr \<lparr>dims = ds, payload = as_compatible_data p, attrs = as\<rparr>
      else Inl ValueError)"

text \<open>
  A coordinate given to \<^verbatim>\<open>xr.Dataset\<close> as a bare array: a scalar has no dimension, a
  one-dimensional array is indexed by its own name, anything else is refused.
\<close>

definition as_variable :: "string \<Rightarrow> 'v payload \<Rightarrow> error + 'v variable" where
  "as_variable name p =
     (if ndim p = 0 then Inr \<lparr>dims = [], payload = as_compatible_data p, attrs = []\<rparr>
      else if ndim p = 1 then Inr \<lparr>dims = [name], payload = as_compatible_data p, attrs = []\<rparr>
      else Inl MissingDimensionsError)"

fun as_variables :: "(string \<times> 'v payload) list \<Rightarrow> error + (string \<times> 'v variable) list" where
  "as_variables [] = Inr []"
| "as_variables ((k, p) # rest) =
     (case as_variable k p of
        Inl e \<Rightarrow> Inl e
      | Inr v \<Rightarrow> (case as_variables rest of
                    Inl e \<Rightarrow> Inl e
                  | Inr vs \<Rightarrow> Inr ((k, v) # vs)))"

text \<open>
  \<^verbatim>\<open>xr.Dataset(data_vars, coords)\<close>: a name may not be both a data variable and a
  coordinate.  The agreement of the sizes along equally named dimensions, which xarray
  checks too, is outside the model; it only makes a reader fail on more files.
\<close>

definition Dataset :: "(string \<times> 'v variable) list \<Rightarrow> (string \<times> 'v payload) list \<Rightarrow> error + 'v dataset" where
  "Dataset vars cs =
     (if list_ex (\<lambda>k. k \<in> set (map fst cs)) (map fst vars) then Inl ValueError
      else (case as_variables cs of
              Inl e \<Rightarrow> Inl e
            | Inr cvs \<Rightarrow> Inr \<lparr>ds_data_vars = vars, ds_coords = cvs\<rparr>))"

section \<open>The readers\<close>

text \<open>
  Python dictionaries keep the order of insertion; they are association lists here,
  with \<^const>\<open>AList.update\<close> for \<^verbatim>\<open>d[k] = v\<close> and \<^const>\<open>AList.delete\<close> for the removal that
  \<^verbatim>\<open>d.pop(k)\<close> does.  The column names of an astropy table are unique.
\<close>

definition dict_pop :: "string \<Rightarrow> (string \<times> 'a) list \<Rightarrow> error + ('a \<times> (string \<times> 'a) list)" where
  "dict_pop k d =
     (case map_of d k of
        None \<Rightarrow> Inl KeyError
      | Some v \<Rightarrow> Inr (v, AList.delete k d))"

text \<open>
  \<^verbatim>\<open>Table.read(fn, hdu)\<close> of astropy on a FITS file: a file that holds no table is
  refused; the table of a file that holds one only is read whatever name was asked
  for, with a warning; among several tables the name is looked up, and it must be
  the name of one unit, which must hold a table.
\<close>

fun tables_of :: "fits \<Rightarrow> table list" where
  "tables_of [] = []"
| "tables_of ((name, TableHDU dat) # rest) = dat # tables_of rest"
| "tables_of ((name, ImageHDU) # rest) = tables_of rest"

definition Table_read :: "disk \<Rightarrow> string \<Rightarrow> string \<Rightarrow> error + table" where
  "Table_read disk fn hdu =
     (case disk fn of
        None \<Rightarrow> Inl FileNotFoundError
      | Some f \<Rightarrow>
          (case tables_of f of
             [] \<Rightarrow> Inl ValueError
           | [dat] \<Rightarrow> Inr dat
           | _ \<Rightarrow> (case filter (\<lambda>(name, h). name = hdu) f of
                     [(name, TableHDU dat)] \<Rightarrow> Inr dat
                   | [(name, ImageHDU)] \<Rightarrow> Inl ValueError
                   | _ \<Rightarrow> Inl KeyError)))"

text \<open>The comprehension \<^verbatim>\<open>{c: cols[c].newbyteorder().byteswap() for c in cols}\<close>.\<close>

definition swap_cols :: "table \<Rightarrow> table" where
  "swap_cols cols = map (\<lambda>(c, col). (c, byteswap (newbyteorder col))) cols"

text \<open>
  The first four statements, which all six readers share but for the name of the
  extension: read the table, swap every column, and take \<^verbatim>\<open>APS_ID\<close> out of the columns
  as the first coordinate.
\<close>

definition read_cols :: "disk \<Rightarrow> string \<Rightarrow> string \<Rightarrow> error + (table \<times> (string \<times> 'v payload) list)" where
  "read_cols disk fn hdu =
     (case Table_read disk fn hdu of
        Inl e \<Rightarrow> Inl e
      | Inr dat \<Rightarrow>
          (case dict_pop ''APS_ID'' (swap_cols dat) of
             Inl e \<Rightarrow> Inl e
           | Inr (aps, cols) \<Rightarrow> Inr (cols, [(''APS_ID'', Column aps)])))"

text \<open>\<^verbatim>\<open>str(col.unit)\<close>.\<close>

definition unit_str :: "column \<Rightarrow> string" where
  "unit_str col = (case unit_attr col of None \<Rightarrow> ''None'' | Some u \<Rightarrow> u)"

text \<open>
  The loop all readers but \<^verbatim>\<open>read_galaxy_table\<close> end with: every remaining column
  becomes a variable under the dimensions its name selects.
\<close>

fun label_cols :: "(string \<Rightarrow> string list) \<Rightarrow> table \<Rightarrow> error + (string \<times> 'v variable) list" where
  "label_cols dims_of [] = Inr []"
| "label_cols dims_of ((c, col) # rest) =
     (case Variable (dims_of c) (Column col) [(''unit'', unit_str col)] of
        Inl e \<Rightarrow> Inl e
      | Inr v \<Rightarrow> (case label_cols dims_of rest of
                    Inl e \<Rightarrow> Inl e
                  | Inr vs \<Rightarrow> Inr ((c, v) # vs)))"

text \<open>
  The operations of a masked array leave the masked elements out.  \<open>unmasked\<close> is the
  array of the numbers of a column with \<open>None\<close> in the place of every masked one.
\<close>

definition unmasked :: "'v numpy \<Rightarrow> column \<Rightarrow> 'v option list list" where
  "unmasked np col =
     map (\<lambda>(i, row). map (\<lambda>(j, x). if masked_at col i j then None else Some x) (enumerate 0 row))
       (enumerate 0 (numbers np col))"

text \<open>
  \<^verbatim>\<open>x.mean(axis=0).round(3)\<close>: at every position of a cell, the sum of the numbers that
  the rows have there and that are not masked, divided by how many they are, and
  rounded; masked where all of them are masked.  A column without rows has at every
  position what the division of the empty sum by zero gives.
\<close>

definition mean_round :: "'v numpy \<Rightarrow> 'v option list \<Rightarrow> 'v option" where
  "mean_round np cs =
     (case List.map_filter (\<lambda>c. c) cs of
        [] \<Rightarrow> None
      | xs \<Rightarrow> Some (np_round3 np (np_divide np (np_sum np xs) (length xs))))"

definition rounded_mean :: "'v numpy \<Rightarrow> column \<Rightarrow> 'v option list" where
  "rounded_mean np col =
     (if cells col = []
      then replicate (prod_list (cell_shape col))
             (Some (np_round3 np (np_divide np (np_sum np []) 0)))
      else map (mean_round np) (transpose (unmasked np col)))"

text \<open>
  The assertion \<^verbatim>\<open>(czz == czz_all.round(3)).all()\<close>: every element of every row that is
  not masked, rounded, is compared with the mean at its position.  An array of which
  every element is masked gives the masked constant, which is false under \<^verbatim>\<open>assert\<close>.
\<close>

definition cell_agrees :: "'v numpy \<Rightarrow> 'v option \<Rightarrow> 'v option \<Rightarrow> bool" where
  "cell_agrees np m x =
     (case m of
        None \<Rightarrow> True
      | Some a \<Rightarrow> (case x of None \<Rightarrow> True | Some b \<Rightarrow> np_equal np a (np_round3 np b)))"

definition all_masked :: "'v numpy \<Rightarrow> column \<Rightarrow> bool" where
  "all_masked np col =
     (concat (unmasked np col) \<noteq> [] \<and> list_all (\<lambda>x. x = None) (concat (unmasked np col)))"

definition rows_agree :: "'v numpy \<Rightarrow> 'v option list \<Rightarrow> column \<Rightarrow> bool" where
  "rows_agree np czz czz_all =
     (list_all (\<lambda>row. list_all2 (cell_agrees np) czz row) (unmasked np czz_all)
      \<and> \<not> all_masked np czz_all)"

subsection \<open>\<^verbatim>\<open>read_class_table\<close>\<close>

fun class_table_promote ::
  "'v numpy \<Rightarrow> string list \<Rightarrow> table \<Rightarrow> (string \<times> 'v payload) list
     \<Rightarrow> error + (table \<times> (string \<times> 'v payload) list)" where
  "class_table_promote np [] cols coords = Inr (cols, coords)"
| "class_table_promote np (c # cs) cols coords =
     (if prefix ''CZZ'' c \<and> \<not> sublist ''CHI2'' c then
        (case dict_pop c cols of
           Inl e \<Rightarrow> Inl e
         | Inr (czz_all, cols') \<Rightarrow>
             (let czz = rounded_mean np czz_all
              in if rows_agree np czz czz_all
                 then class_table_promote np cs cols'
                        (AList.update c (Array (cell_shape czz_all) czz) coords)
                 else Inl AssertionError))
      else class_table_promote np cs cols coords)"

definition class_table_dims :: "string \<Rightarrow> string list" where
  "class_table_dims c =
     [''APS_ID''] @
       (if prefix ''CZZ'' c then [str_replace ''_CHI2'' [] c]
        else if c = ''COEFF'' then [''I_COEFF'']
        else [])"

definition read_class_table :: "'v numpy \<Rightarrow> disk \<Rightarrow> string \<Rightarrow> error + 'v dataset" where
  "read_class_table np disk fn =
     (case read_cols disk fn ''CLASS_TABLE'' of
        Inl e \<Rightarrow> Inl e
      | Inr (cols, coords) \<Rightarrow>
          (case class_table_promote np (map fst cols) cols coords of
             Inl e \<Rightarrow> Inl e
           | Inr (cols, coords) \<Rightarrow>
               (case label_cols class_table_dims cols of
                  Inl e \<Rightarrow> Inl e
                | Inr vars \<Rightarrow> Dataset vars coords)))"

subsection \<open>\<^verbatim>\<open>read_star_table\<close>\<close>

definition star_table_dims :: "string \<Rightarrow> string list" where
  "star_table_dims c =
     [''APS_ID''] @
       (if c = ''COVAR'' then [''I_COVAR'', ''J_COVAR'']
        else if sublist ''ELEM'' c then [''I_ELEM'']
        else [])"

definition read_star_table :: "disk \<Rightarrow> string \<Rightarrow> error + 'v dataset" where
  "read_star_table disk fn =
     (case read_cols disk fn ''STAR_TABLE'' of
        Inl e \<Rightarrow> Inl e
      | Inr (cols, coords) \<Rightarrow>
          (let params = Labels [''TEFF'', ''LOGG'', ''FEH'', ''ALPHA'', ''MICRO''];
               coords = AList.update ''I_COVAR'' params (AList.update ''J_COVAR'' params coords)
           in case label_cols star_table_dims cols of
                Inl e \<Rightarrow> Inl e
              | Inr vars \<Rightarrow> Dataset vars coords))"

subsection \<open>\<^verbatim>\<open>not_line_col\<close> and \<^verbatim>\<open>read_galaxy_table\<close>\<close>

fun starts_none :: "string \<Rightarrow> string list \<Rightarrow> bool" where
  "starts_none c [] = True"
| "starts_none c (n # ns) = (if prefix (n @ ''_'') c then False else starts_none c ns)"

definition not_line_col :: "string \<Rightarrow> bool" where
  "not_line_col c =
     (let c = str_replace ''ERR_'' [] c
      in starts_none c [''EBMV'', ''FLUX'', ''AMPL'', ''Z'', ''SIGMA'', ''AON'', ''FWHM''])"

definition galaxy_out_name :: "nat \<Rightarrow> string \<Rightarrow> string" where
  "galaxy_out_name i c = (if i > 100 \<and> not_line_col c then ''IDX_'' @ c else c)"

definition galaxy_table_dims :: "string \<Rightarrow> string list" where
  "galaxy_table_dims c = [''APS_ID''] @ (if sublist ''EBMV'' c then [''I_EBMV''] else [])"

fun galaxy_table_loop ::
  "nat \<Rightarrow> table \<Rightarrow> (string \<times> 'v variable) list \<Rightarrow> error + (string \<times> 'v variable) list" where
  "galaxy_table_loop i [] out_cols = Inr out_cols"
| "galaxy_table_loop i ((c, col) # rest) out_cols =
     (case Variable (galaxy_table_dims c) (Column col) [(''unit'', unit_str col)] of
        Inl e \<Rightarrow> Inl e
      | Inr v \<Rightarrow> galaxy_table_loop (Suc i) rest (AList.update (galaxy_out_name i c) v out_cols))"

definition read_galaxy_table :: "disk \<Rightarrow> string \<Rightarrow> error + 'v dataset" where
  "read_galaxy_table disk fn =
     (case read_cols disk fn ''GALAXY_TABLE'' of
        Inl e \<Rightarrow> Inl e
      | Inr (cols, coords) \<Rightarrow>
          (case galaxy_table_loop 0 cols [] of
             Inl e \<Rightarrow> Inl e
           | Inr out_cols \<Rightarrow> Dataset out_cols coords))"

subsection \<open>\<^verbatim>\<open>read_class_spec\<close>\<close>

fun class_spec_promote ::
  "'v numpy \<Rightarrow> string list \<Rightarrow> table \<Rightarrow> (string \<times> 'v payload) list
     \<Rightarrow> error + (table \<times> (string \<times> 'v payload) list)" where
  "class_spec_promote np [] cols coords = Inr (cols, coords)"
| "class_spec_promote np (c # cs) cols coords =
     (if prefix ''LAMBDA'' c then
        (let band = last (str_split CHR ''_'' c)
         in case dict_pop c cols of
              Inl e \<Rightarrow> Inl e
            | Inr (wl_all, cols') \<Rightarrow>
                (let wl = rounded_mean np wl_all
                 in if rows_agree np wl wl_all
                    then class_spec_promote np cs cols'
                           (AList.update (''LAMBDA_'' @ band) (Array (cell_shape wl_all) wl) coords)
                    else Inl AssertionError))
      else class_spec_promote np cs cols coords)"

definition class_spec_dims :: "string \<Rightarrow> string list" where
  "class_spec_dims c =
     [''APS_ID''] @
       (if suffix ''_B'' c then [''LAMBDA_B'']
        else if suffix ''_R'' c then [''LAMBDA_R'']
        else [])"

definition read_class_spec :: "'v numpy \<Rightarrow> disk \<Rightarrow> string \<Rightarrow> error + 'v dataset" where
  "read_class_spec np disk fn =
     (case read_cols disk fn ''CLASS_SPEC'' of
        Inl e \<Rightarrow> Inl e
      | Inr (cols, coords) \<Rightarrow>
          (case class_spec_promote np (map fst cols) cols coords of
             Inl e \<Rightarrow> Inl e
           | Inr (cols, coords) \<Rightarrow>
               (case label_cols class_spec_dims cols of
                  Inl e \<Rightarrow> Inl e
                | Inr vars \<Rightarrow> Dataset vars coords)))"

subsection \<open>\<^verbatim>\<open>read_star_spec\<close> and \<^verbatim>\<open>read_galaxy_spec\<close>\<close>

definition star_spec_dims :: "string \<Rightarrow> string list" where
  "star_spec_dims c =
     [''APS_ID''] @
       (if suffix ''_B'' c then [''LAMBIN_B'']
        else if suffix ''_R'' c then [''LAMBIN_R'']
        else if suffix ''_C'' c then [''LAMBIN_C'']
        else [])"

definition read_star_spec :: "disk \<Rightarrow> string \<Rightarrow> error + 'v dataset" where
  "read_star_spec disk fn =
     (case read_cols disk fn ''STAR_SPEC'' of
        Inl e \<Rightarrow> Inl e
      | Inr (cols, coords) \<Rightarrow>
          (case label_cols star_spec_dims cols of
             Inl e \<Rightarrow> Inl e
           | Inr vars \<Rightarrow> Dataset vars coords))"

definition galaxy_spec_dims :: "string \<Rightarrow> string list" where
  "galaxy_spec_dims c =
     [''APS_ID''] @ (if suffix ''_PPXF'' c \<or> suffix ''_GAND'' c then [''LOGLAMBIN''] else [])"

definition read_galaxy_spec :: "disk \<Rightarrow> string \<Rightarrow> error + 'v dataset" where
  "read_galaxy_spec disk fn =
     (case read_cols disk fn ''GALAXY_SPEC'' of
        Inl e \<Rightarrow> Inl e
      | Inr (cols, coords) \<Rightarrow>
          (case label_cols galaxy_spec_dims cols of
             Inl e \<Rightarrow> Inl e
           | Inr vars \<Rightarrow> Dataset vars coords))"

section \<open>The cache of netCDF files\<close>

text \<open>
  What lies at a path of the store is a complete netCDF file holding a dataset, or the
  beginning of one that was never finished.  The world also keeps the directories and
  a trace of every call made to a reader, to \<^verbatim>\<open>os.makedirs\<close> and to \<^verbatim>\<open>to_netcdf\<close>.
\<close>

datatype 'v artifact = Complete "'v dataset" | Partial

datatype event = ReadSource string string | MakeDirs string | WriteNetCDF string

record 'v world =
  files :: "(string \<times> 'v artifact) list"
  directories :: "string list"
  trace :: "event list"

text \<open>
  The outcome of the two calls that write is the operating system's and a parameter:
  whether \<^verbatim>\<open>os.makedirs\<close> may create a directory, and whether a write to a path runs to
  its end, fails before the file is created (no permission) or fails after it was
  created (a full disk, an interrupt).
\<close>

datatype write_outcome = WriteCompletes | WriteFailsBefore | WriteFailsMidway

record environment =
  makedirs_ok :: "string \<Rightarrow> bool"
  write_result :: "string \<Rightarrow> write_outcome"

definition os_path_exists :: "'v world \<Rightarrow> string \<Rightarrow> bool" where
  "os_path_exists w p = (p \<in> set (map fst (files w)) \<or> p \<in> set (directories w))"

text \<open>The directory and those above it that \<^verbatim>\<open>os.makedirs\<close> creates where missing.\<close>

function ancestors :: "string \<Rightarrow> string list" where
  "ancestors d =
     (if d = [] \<or> dirname d = d \<or> length d \<le> length (dirname d) then [d]
      else d # ancestors (dirname d))"
  by pat_completeness auto
termination
  by (relation "measure length") auto

declare ancestors.simps [simp del]

text \<open>\<^verbatim>\<open>os.makedirs(d, exist_ok=True)\<close>.\<close>

definition os_makedirs :: "environment \<Rightarrow> string \<Rightarrow> 'v world \<Rightarrow> (error + unit) \<times> 'v world" where
  "os_makedirs env d w =
     (let w = w\<lparr>trace := trace w @ [MakeDirs d]\<rparr>
      in if d = [] then (Inl FileNotFoundError, w)
         else if d \<in> set (map fst (files w)) then (Inl FileExistsError, w)
         else if \<not> makedirs_ok env d then (Inl OSError, w)
         else (Inr (), w\<lparr>directories := List.union (directories w) (ancestors d)\<rparr>))"

text \<open>
  \<^verbatim>\<open>ds.to_netcdf(path)\<close> opens the file at the path it is given and writes the dataset
  into it: there is no other path through which the data go.
\<close>

definition to_netcdf :: "environment \<Rightarrow> 'v dataset \<Rightarrow> string \<Rightarrow> 'v world \<Rightarrow> (error + unit) \<times> 'v world" where
  "to_netcdf env ds path w =
     (let w = w\<lparr>trace := trace w @ [WriteNetCDF path]\<rparr>
      in case write_result env path of
           WriteCompletes \<Rightarrow> (Inr (), w\<lparr>files := AList.update path (Complete ds) (files w)\<rparr>)
         | WriteFailsBefore \<Rightarrow> (Inl OSError, w)
         | WriteFailsMidway \<Rightarrow> (Inl OSError, w\<lparr>files := AList.update path Partial (files w)\<rparr>))"

text \<open>
  \<^verbatim>\<open>ds.expand_dims({d: labels})\<close>: refused when \<^verbatim>\<open>d\<close> is a dimension of the dataset
  already, or the name of a variable that is not a scalar.  Otherwise \<^verbatim>\<open>d\<close> becomes a
  coordinate holding the labels and the first dimension of every data variable;
  coordinates keep their dimensions.
\<close>

definition dataset_dims :: "'v dataset \<Rightarrow> string list" where
  "dataset_dims ds = concat (map (\<lambda>(k, v). dims v) (ds_data_vars ds @ ds_coords ds))"

definition expand_dims :: "string \<Rightarrow> string list \<Rightarrow> 'v dataset \<Rightarrow> error + 'v dataset" where
  "expand_dims d labels ds =
     (if d \<in> set (dataset_dims ds) then Inl ValueError
      else if list_ex (\<lambda>(k, v). k = d \<and> dims v \<noteq> []) (ds_data_vars ds @ ds_coords ds)
        then Inl ValueError
      else Inr \<lparr>ds_data_vars =
                  map (\<lambda>(k, v). (k, v\<lparr>dims := d # dims v\<rparr>)) (AList.delete d (ds_data_vars ds)),
                ds_coords =
                  AList.update d \<lparr>dims = [d], payload = Labels labels, attrs = []\<rparr> (ds_coords ds)\<rparr>)"

text \<open>A read function: its \<^verbatim>\<open>__name__\<close> and what calling it on a file name gives.\<close>

record 'v read_function =
  fn_name :: string
  call :: "string \<Rightarrow> error + 'v dataset"

text \<open>\<^verbatim>\<open>ViaNetCDF.single_via_netcdf\<close>, for an instance whose store is \<open>netcdf_store\<close>.\<close>

definition single_via_netcdf ::
  "environment \<Rightarrow> string \<Rightarrow> 'v read_function \<Rightarrow> string \<Rightarrow> 'v world \<Rightarrow> (error + string) \<times> 'v world" where
  "single_via_netcdf env netcdf_store read_function fn w =
     (let fn_netcdf = cache_path netcdf_store (fn_name read_function) fn
      in if \<not> os_path_exists w fn_netcdf then
           (let w = w\<lparr>trace := trace w @ [ReadSource (fn_name read_function) fn]\<rparr>
            in case call read_function fn of
                 Inl e \<Rightarrow> (Inl e, w)
               | Inr ds \<Rightarrow>
                   (let fn_base = fst (splitext (basename fn))
                    in case expand_dims ''filename'' [fn_base] ds of
                         Inl e \<Rightarrow> (Inl e, w)
                       | Inr ds \<Rightarrow>
                           (case os_makedirs env (dirname fn_netcdf) w of
                              (Inl e, w) \<Rightarrow> (Inl e, w)
                            | (Inr u, w) \<Rightarrow>
                                (case to_netcdf env ds fn_netcdf w of
                                   (Inl e, w) \<Rightarrow> (Inl e, w)
                                 | (Inr u, w) \<Rightarrow> (Inr fn_netcdf, w)))))
         else (Inr fn_netcdf, w))"





section \<open>Example inputs\<close>

text \<open>
  Concrete files, environments and an arithmetic, on which the definitions above are
  run.  The arithmetic is exact: a number is a rational or NaN; an element denotes the
  unsigned integer of its bytes in ten-thousandths, and NaN when all its bits are set;
  rounding is to the nearest thousandth, a tie going to the even neighbour; NaN is
  equal to nothing, added to anything it gives NaN, and so does a division by zero.
\<close>

datatype number = NaN | Num rat

definition round_half_even :: "rat \<Rightarrow> int" where
  "round_half_even x =
     (let f = \<lfloor>x\<rfloor>; d = x - of_int f
      in if d < 1 / 2 then f
         else if 1 / 2 < d then f + 1
         else if even f then f else f + 1)"

fun number_add :: "number \<Rightarrow> number \<Rightarrow> number" where
  "number_add (Num a) (Num b) = Num (a + b)"
| "number_add x y = NaN"

fun number_divide :: "number \<Rightarrow> nat \<Rightarrow> number" where
  "number_divide (Num a) n = (if n = 0 then NaN else Num (a / of_nat n))"
| "number_divide NaN n = NaN"

fun number_round3 :: "number \<Rightarrow> number" where
  "number_round3 (Num a) = Num (of_int (round_half_even (a * 1000)) / 1000)"
| "number_round3 NaN = NaN"

fun number_equal :: "number \<Rightarrow> number \<Rightarrow> bool" where
  "number_equal (Num a) (Num b) = (a = b)"
| "number_equal x y = False"

definition number_decode :: "byte list \<Rightarrow> number" where
  "number_decode bs =
     (if bs \<noteq> [] \<and> list_all (\<lambda>b. b = 255) bs then NaN
      else Num (of_int (foldl (\<lambda>a b. 256 * a + uint b) 0 bs) / 10000))"

definition exact_numpy :: "number numpy" where
  "exact_numpy =
     \<lparr>np_decode = number_decode,
      np_sum = foldl number_add (Num 0),
      np_divide = number_divide,
      np_round3 = number_round3,
      np_equal = number_equal\<rparr>"

definition aps_id_column :: column where
  "aps_id_column =
     \<lparr>byte_order = BigEndian, cell_shape = [], cells = [[[0, 1]], [[0, 2]]], mask = [],
      unit_attr = None\<rparr>"

definition teff_column :: column where
  "teff_column =
     \<lparr>byte_order = BigEndian, cell_shape = [],
      cells = [[[21, 124]], [[23, 112]]], mask = [], unit_attr = Some ''K''\<rparr>"

definition elem_column :: column where
  "elem_column =
     \<lparr>byte_order = LittleEndian, cell_shape = [2],
      cells = [[[1, 0], [2, 0]], [[3, 0], [4, 0]]], mask = [], unit_attr = None\<rparr>"

text \<open>A column of one-byte flags, whose dtype has no byte order.\<close>

definition flag_column :: column where
  "flag_column =
     \<lparr>byte_order = NotApplicable, cell_shape = [], cells = [[[1]], [[0]]], mask = [],
      unit_attr = None\<rparr>"

definition star_table :: table where
  "star_table =
     [(''APS_ID'', aps_id_column), (''TEFF'', teff_column), (''ELEM'', elem_column),
      (''FLAG'', flag_column)]"

text \<open>
  A class table whose redshift grid \<^verbatim>\<open>CZZ_GALAXY\<close> is the same in both rows to three
  decimals, \<open>1.2344, 2\<close> and \<open>1.2336, 2\<close>; one in which the second row has another
  grid, \<open>1.2344, 2.001\<close>; and one in which the second row has a NaN, \<open>NaN, 2\<close>,
  which astropy masks.
\<close>

definition czz_shared_column :: column where
  "czz_shared_column =
     \<lparr>byte_order = BigEndian, cell_shape = [2],
      cells = [[[48, 56], [78, 32]], [[48, 48], [78, 32]]], mask = [], unit_attr = None\<rparr>"

definition czz_ragged_column :: column where
  "czz_ragged_column =
     \<lparr>byte_order = BigEndian, cell_shape = [2],
      cells = [[[48, 56], [78, 32]], [[48, 56], [78, 42]]], mask = [], unit_attr = None\<rparr>"

definition czz_nan_column :: column where
  "czz_nan_column =
     \<lparr>byte_order = BigEndian, cell_shape = [2],
      cells = [[[48, 56], [78, 32]], [[255, 255], [78, 32]]],
      mask = [[False, False], [True, False]], unit_attr = None\<rparr>"

definition chi2_column :: column where
  "chi2_column =
     \<lparr>byte_order = BigEndian, cell_shape = [2],
      cells = [[[0, 7], [0, 9]], [[0, 8], [0, 6]]], mask = [], unit_attr = None\<rparr>"

definition class_table_shared :: table where
  "class_table_shared =
     [(''APS_ID'', aps_id_column), (''CZZ_GALAXY'', czz_shared_column),
      (''CZZ_CHI2_GALAXY'', chi2_column), (''SNR'', teff_column)]"

definition class_table_ragged :: table where
  "class_table_ragged =
     [(''APS_ID'', aps_id_column), (''CZZ_GALAXY'', czz_ragged_column),
      (''CZZ_CHI2_GALAXY'', chi2_column), (''SNR'', teff_column)]"

definition class_table_nan :: table where
  "class_table_nan =
     [(''APS_ID'', aps_id_column), (''CZZ_GALAXY'', czz_nan_column),
      (''CZZ_CHI2_GALAXY'', chi2_column), (''SNR'', teff_column)]"

definition class_spec_shared :: table where
  "class_spec_shared =
     [(''APS_ID'', aps_id_column), (''LAMBDA_B'', czz_shared_column), (''FLUX_B'', chi2_column)]"

definition class_spec_ragged :: table where
  "class_spec_ragged =
     [(''APS_ID'', aps_id_column), (''LAMBDA_B'', czz_ragged_column), (''FLUX_B'', chi2_column)]"

definition galaxy_table :: table where
  "galaxy_table =
     [(''APS_ID'', aps_id_column), (''EBMV_STARS'', elem_column), (''FLUX_HA'', teff_column)]"

definition star_spec_table :: table where
  "star_spec_table =
     [(''APS_ID'', aps_id_column), (''FLUX_B'', chi2_column), (''FLUX_R'', chi2_column),
      (''FLUX_C'', chi2_column), (''SNR'', teff_column)]"

definition galaxy_spec_table :: table where
  "galaxy_spec_table =
     [(''APS_ID'', aps_id_column), (''MODEL_PPXF'', chi2_column), (''EMIS_GAND'', chi2_column),
      (''SNR'', teff_column)]"

text \<open>
  Files of one night; the path \<open>stack_bad\<close> holds a file without any table.
\<close>

definition stack_1 :: string where
  "stack_1 = ''/data/L2/20230101/stack_1.fits''"

definition stack_2 :: string where
  "stack_2 = ''/data/L2/20230101/stack_2.fits''"

definition stack_nan :: string where
  "stack_nan = ''/data/L2/20230101/stack_nan.fits''"

definition stack_bad :: string where
  "stack_bad = ''/data/L2/20230101/stack_bad.fits''"

definition example_disk :: disk where
  "example_disk fn =
     (if fn = stack_1 then
        Some [(''PRIMARY'', ImageHDU),
              (''STAR_TABLE'', TableHDU star_table), (''CLASS_TABLE'', TableHDU class_table_shared),
              (''CLASS_SPEC'', TableHDU class_spec_shared),
              (''GALAXY_TABLE'', TableHDU galaxy_table),
              (''STAR_SPEC'', TableHDU star_spec_table),
              (''GALAXY_SPEC'', TableHDU galaxy_spec_table)]
      else if fn = stack_2 then
        Some [(''PRIMARY'', ImageHDU),
              (''STAR_TABLE'', TableHDU star_table), (''CLASS_TABLE'', TableHDU class_table_ragged),
              (''CLASS_SPEC'', TableHDU class_spec_ragged)]
      else if fn = stack_nan then
        Some [(''PRIMARY'', ImageHDU),
              (''STAR_TABLE'', TableHDU star_table), (''CLASS_TABLE'', TableHDU class_table_nan)]
      else if fn = stack_bad then Some [(''PRIMARY'', ImageHDU)]
      else None)"

definition star_reader :: "number read_function" where
  "star_reader = \<lparr>fn_name = ''read_star_table'', call = read_star_table example_disk\<rparr>"

definition env_ok :: environment where
  "env_ok = \<lparr>makedirs_ok = (\<lambda>d. True), write_result = (\<lambda>p. WriteCompletes)\<rparr>"

definition env_disk_full :: environment where
  "env_disk_full = \<lparr>makedirs_ok = (\<lambda>d. True), write_result = (\<lambda>p. WriteFailsMidway)\<rparr>"

definition empty_world :: "number world" where
  "empty_world = \<lparr>files = [], directories = [], trace = []\<rparr>"

section \<open>Predicates of the statements\<close>

text \<open>The row axis leads every data variable of a dataset.\<close>

definition aps_id_leads :: "'v dataset \<Rightarrow> bool" where
  "aps_id_leads ds = list_all (\<lambda>(k, v). prefix [''APS_ID''] (dims v)) (ds_data_vars ds)"

text \<open>
  The two promotion loops, of \<^verbatim>\<open>read_class_table\<close> and of \<^verbatim>\<open>read_class_spec\<close>, have one
  shape: they differ in which columns they take and in the name of the coordinate.
\<close>

fun promote ::
  "'v numpy \<Rightarrow> (string \<Rightarrow> bool) \<Rightarrow> (string \<Rightarrow> string) \<Rightarrow> string list \<Rightarrow> table
     \<Rightarrow> (string \<times> 'v payload) list \<Rightarrow> error + (table \<times> (string \<times> 'v payload) list)" where
  "promote np taken key [] cols coords = Inr (cols, coords)"
| "promote np taken key (c # cs) cols coords =
     (if taken c then
        (case dict_pop c cols of
           Inl e \<Rightarrow> Inl e
         | Inr (x_all, cols') \<Rightarrow>
             (if rows_agree np (rounded_mean np x_all) x_all
              then promote np taken key cs cols'
                     (AList.update (key c) (Array (cell_shape x_all) (rounded_mean np x_all)) coords)
              else Inl AssertionError))
      else promote np taken key cs cols coords)"

definition czz_axis :: "string \<Rightarrow> bool" where
  "czz_axis c = (prefix ''CZZ'' c \<and> \<not> sublist ''CHI2'' c)"

definition lambda_axis :: "string \<Rightarrow> bool" where
  "lambda_axis c = prefix ''LAMBDA'' c"

definition lambda_key :: "string \<Rightarrow> string" where
  "lambda_key c = ''LAMBDA_'' @ last (str_split CHR ''_'' c)"

text \<open>The column that a data variable of a dataset holds.\<close>

definition column_of :: "'v dataset \<Rightarrow> string \<Rightarrow> column option" where
  "column_of ds k =
     (case map_of (ds_data_vars ds) k of
        None \<Rightarrow> None
      | Some v \<Rightarrow> (case payload v of Column c \<Rightarrow> Some c | _ \<Rightarrow> None))"

text \<open>The components that the cache path takes from a source path.\<close>

definition source_parts :: "string \<Rightarrow> string list" where
  "source_parts fn = last3 (str_split os_sep (normpath fn))"

text \<open>
  The format of the canonical path as the specification words it: the cache root, the
  last three segments of the source path with their separators, the base name without
  its extension joined to the table name, which is the reader's name without a leading
  \<^verbatim>\<open>read_\<close>.
\<close>

definition strip_read_prefix :: "string \<Rightarrow> string" where
  "strip_read_prefix name = (if prefix ''read_'' name then drop 5 name else name)"

definition spec_cache_path :: "string \<Rightarrow> string \<Rightarrow> string \<Rightarrow> string" where
  "spec_cache_path cache_root name fn =
     cache_root @ ''/'' @ str_join ''/'' (last3 (str_split os_sep fn)) @ ''/''
       @ fst (splitext (basename fn)) @ ''_'' @ strip_read_prefix name @ ''.nc''"

text \<open>What \<^verbatim>\<open>posixpath.join\<close> makes of its first argument before the first component.\<close>

definition join_head :: "string \<Rightarrow> string" where
  "join_head a = (if a = [] \<or> suffix [os_sep] a then a else a @ [os_sep])"

text \<open>The names of the six readers of \<^verbatim>\<open>qagmire/data.py\<close>.\<close>

definition reader_names :: "string list" where
  "reader_names =
     [''read_class_table'', ''read_star_table'', ''read_galaxy_table'',
      ''read_class_spec'', ''read_star_spec'', ''read_galaxy_spec'']"

section \<open>Properties\<close>

subsection \<open>Strings\<close>

lemma str_replace_at_old:
  "old \<noteq> [] \<Longrightarrow> str_replace old new (old @ s) = new @ str_replace old new s"
  by (subst str_replace.simps) simp

subsection \<open>Line columns and their errors\<close>

text \<open>
  Claim C10.  Putting \<^verbatim>\<open>ERR_\<close> in front of a column name never changes what
  \<^verbatim>\<open>not_line_col\<close> says of it: the replacement removes that prefix first and then goes
  on through the name as it would have alone.  So past the cutoff of
  \<^verbatim>\<open>read_galaxy_table\<close> (an index above 100) a column and its error column are both
  renamed with \<^verbatim>\<open>IDX_\<close> or both kept.
\<close>

theorem not_line_col_ERR_prefix:
  "not_line_col (''ERR_'' @ c) = not_line_col c
   \<and> (100 < i \<and> 100 < j \<longrightarrow>
        (galaxy_out_name j (''ERR_'' @ c) = ''IDX_'' @ ''ERR_'' @ c)
          = (galaxy_out_name i c = ''IDX_'' @ c))"
proof -
  have r: "str_replace ''ERR_'' [] (''ERR_'' @ c) = str_replace ''ERR_'' [] c"
    using str_replace_at_old [of "''ERR_''" "[]" c] by simp
  have n: "not_line_col (''ERR_'' @ c) = not_line_col c"
    unfolding not_line_col_def r ..
  show ?thesis
    using n by (simp add: galaxy_out_name_def)
qed

theorem not_line_col_ERR_prefix_witness:
  "not_line_col ''ERR_FLUX_HA'' = not_line_col ''FLUX_HA''
   \<and> \<not> not_line_col ''FLUX_HA''
   \<and> galaxy_out_name 102 ''ERR_FLUX_HA'' = ''ERR_FLUX_HA''
   \<and> galaxy_out_name 101 ''FLUX_HA'' = ''FLUX_HA''
   \<and> not_line_col ''ERR_SNR''
   \<and> galaxy_out_name 102 ''ERR_SNR'' = ''IDX_ERR_SNR''
   \<and> galaxy_out_name 101 ''SNR'' = ''IDX_SNR''"
proof -
  have a: "\<not> not_line_col ''FLUX_HA''" by code_simp
  have b: "not_line_col ''SNR''" by code_simp
  show ?thesis
    using not_line_col_ERR_prefix [of "''FLUX_HA''" 101 102]
      not_line_col_ERR_prefix [of "''SNR''" 101 102] a b
    by (simp add: galaxy_out_name_def)
qed

subsection \<open>The cache\<close>

lemma to_netcdf_Inr:
  "to_netcdf env ds p w = (Inr u, w') \<Longrightarrow>
     w' = w\<lparr>trace := trace w @ [WriteNetCDF p], files := AList.update p (Complete ds) (files w)\<rparr>
     \<and> write_result env p = WriteCompletes"
  by (cases "write_result env p") (auto simp: to_netcdf_def Let_def)



lemma os_makedirs_Inl_directories:
  "os_makedirs env d w = (Inl e, w') \<Longrightarrow> directories w' = directories w"
  by (auto simp: os_makedirs_def Let_def split: if_splits)

lemma single_via_netcdf_cached:
  "os_path_exists w (cache_path store (fn_name R) F) \<Longrightarrow>
     single_via_netcdf env store R F w = (Inr (cache_path store (fn_name R) F), w)"
  by (simp add: single_via_netcdf_def)

text \<open>A call that finds nothing at the path and returns has gone through every step.\<close>

lemma single_via_netcdf_fresh_Inr:
  assumes fresh: "\<not> os_path_exists w (cache_path store (fn_name R) F)"
    and ret: "single_via_netcdf env store R F w = (Inr p, w')"
  shows "\<exists>ds0 ds w1.
           call R F = Inr ds0
           \<and> expand_dims ''filename'' [fst (splitext (basename F))] ds0 = Inr ds
           \<and> os_makedirs env (dirname p) (w\<lparr>trace := trace w @ [ReadSource (fn_name R) F]\<rparr>)
               = (Inr (), w1)
           \<and> to_netcdf env ds p w1 = (Inr (), w')
           \<and> p = cache_path store (fn_name R) F"
proof -
  let ?p = "cache_path store (fn_name R) F"
  let ?w0 = "w\<lparr>trace := trace w @ [ReadSource (fn_name R) F]\<rparr>"
  let ?base = "fst (splitext (basename F))"
  have e0:
    "(case call R F of
        Inl e \<Rightarrow> (Inl e, ?w0)
      | Inr ds \<Rightarrow>
          (case expand_dims ''filename'' [?base] ds of
             Inl e \<Rightarrow> (Inl e, ?w0)
           | Inr ds \<Rightarrow>
               (case os_makedirs env (dirname ?p) ?w0 of
                  (Inl e, w) \<Rightarrow> (Inl e, w)
                | (Inr u, w) \<Rightarrow>
                    (case to_netcdf env ds ?p w of
                       (Inl e, w) \<Rightarrow> (Inl e, w)
                     | (Inr u, w) \<Rightarrow> (Inr ?p, w))))) = (Inr p, w')"
    using ret fresh unfolding single_via_netcdf_def Let_def by simp
  then obtain ds0 where c: "call R F = Inr ds0"
    by (cases "call R F") simp_all
  with e0 have e1:
    "(case expand_dims ''filename'' [?base] ds0 of
             Inl e \<Rightarrow> (Inl e, ?w0)
           | Inr ds \<Rightarrow>
               (case os_makedirs env (dirname ?p) ?w0 of
                  (Inl e, w) \<Rightarrow> (Inl e, w)
                | (Inr u, w) \<Rightarrow>
                    (case to_netcdf env ds ?p w of
                       (Inl e, w) \<Rightarrow> (Inl e, w)
                     | (Inr u, w) \<Rightarrow> (Inr ?p, w)))) = (Inr p, w')"
    by simp
  then obtain ds where x: "expand_dims ''filename'' [?base] ds0 = Inr ds"
    by (cases "expand_dims ''filename'' [?base] ds0") simp_all
  obtain r1 w1 where m: "os_makedirs env (dirname ?p) ?w0 = (r1, w1)"
    by (cases "os_makedirs env (dirname ?p) ?w0")
  with e1 x have e2:
    "(case r1 of Inl e \<Rightarrow> (Inl e, w1)
      | Inr u \<Rightarrow> (case to_netcdf env ds ?p w1 of
                       (Inl e, w) \<Rightarrow> (Inl e, w)
                     | (Inr u, w) \<Rightarrow> (Inr ?p, w))) = (Inr p, w')"
    by (cases r1) simp_all
  then have r1: "r1 = Inr ()"
    by (cases r1) simp_all
  obtain r2 w2 where t: "to_netcdf env ds ?p w1 = (r2, w2)"
    by (cases "to_netcdf env ds ?p w1")
  with e2 r1 have e3: "(case r2 of Inl e \<Rightarrow> (Inl e, w2) | Inr u \<Rightarrow> (Inr ?p, w2)) = (Inr p, w')"
    by (cases r2) simp_all
  then have r2: "r2 = Inr () \<and> p = ?p \<and> w2 = w'"
    by (cases r2) simp_all
  from c x m r1 t r2 show ?thesis by simp
qed

lemma single_via_netcdf_Inr:
  assumes "single_via_netcdf env store R F w = (Inr p, w')"
  shows "p = cache_path store (fn_name R) F \<and> os_path_exists w' p"
proof (cases "os_path_exists w (cache_path store (fn_name R) F)")
  case True
  with assms show ?thesis by (simp add: single_via_netcdf_def)
next
  case False
  from single_via_netcdf_fresh_Inr [OF False assms]
  obtain ds w1 where t: "to_netcdf env ds p w1 = (Inr (), w')"
    and p: "p = cache_path store (fn_name R) F"
    by blast
  from to_netcdf_Inr [OF t] have "p \<in> fst ` set (files w')"
    by (simp add: AList.dom_update)
  then show ?thesis using p by (simp add: os_path_exists_def)
qed

text \<open>
  Claim C1.  A call of \<^verbatim>\<open>single_via_netcdf\<close> that finds a file at the canonical path
  returns that path and leaves the world as it was: the trace gains no call of the
  reader, of \<^verbatim>\<open>os.makedirs\<close> or of \<^verbatim>\<open>to_netcdf\<close>.  A call that returns has left a file at
  the path, so a second call for the same reader and file, whatever the
  operating system would then do to a write, returns the same path and changes
  nothing.
\<close>

theorem single_via_netcdf_idempotent:
  "(os_path_exists w (cache_path store (fn_name R) F) \<longrightarrow>
      single_via_netcdf env store R F w = (Inr (cache_path store (fn_name R) F), w))
   \<and> (single_via_netcdf env store R F w = (Inr p, w') \<longrightarrow>
        p = cache_path store (fn_name R) F
        \<and> single_via_netcdf env' store R F w' = (Inr p, w'))"
proof (intro conjI impI)
  assume "os_path_exists w (cache_path store (fn_name R) F)"
  then show "single_via_netcdf env store R F w = (Inr (cache_path store (fn_name R) F), w)"
    by (rule single_via_netcdf_cached)
next
  assume a: "single_via_netcdf env store R F w = (Inr p, w')"
  from single_via_netcdf_Inr [OF a] show "p = cache_path store (fn_name R) F" by simp
next
  assume a: "single_via_netcdf env store R F w = (Inr p, w')"
  from single_via_netcdf_Inr [OF a]
  have "p = cache_path store (fn_name R) F" and "os_path_exists w' (cache_path store (fn_name R) F)"
    by auto
  then show "single_via_netcdf env' store R F w' = (Inr p, w')"
    by (simp add: single_via_netcdf_cached)
qed

theorem single_via_netcdf_idempotent_witness:
  "fst (single_via_netcdf env_ok ''/store'' star_reader stack_1 empty_world)
     = Inr ''/store/L2/20230101/stack_1_star_table.nc''
   \<and> single_via_netcdf env_disk_full ''/store'' star_reader stack_1
         (snd (single_via_netcdf env_ok ''/store'' star_reader stack_1 empty_world))
       = (Inr ''/store/L2/20230101/stack_1_star_table.nc'',
          snd (single_via_netcdf env_ok ''/store'' star_reader stack_1 empty_world))"
proof -
  let ?r = "single_via_netcdf env_ok ''/store'' star_reader stack_1 empty_world"
  have a: "fst ?r = Inr ''/store/L2/20230101/stack_1_star_table.nc''"
    by code_simp
  then have b: "?r = (Inr ''/store/L2/20230101/stack_1_star_table.nc'', snd ?r)"
    by (metis prod.collapse)
  from single_via_netcdf_idempotent
         [of empty_world "''/store''" star_reader stack_1 env_ok
             "''/store/L2/20230101/stack_1_star_table.nc''" "snd ?r" env_disk_full] a b
  show ?thesis by blast
qed



lemma expand_dims_Inr:
  assumes "expand_dims d ls ds0 = Inr ds"
  shows "map_of (ds_coords ds) d = Some \<lparr>dims = [d], payload = Labels ls, attrs = []\<rparr>"
    and "d \<in> set (dataset_dims ds)"
    and "list_all (\<lambda>(k, v). dims v \<noteq> [] \<and> hd (dims v) = d) (ds_data_vars ds)"
    and "map fst (ds_data_vars ds) = map fst (AList.delete d (ds_data_vars ds0))"
proof -
  from assms have ds: "ds = \<lparr>ds_data_vars =
                  map (\<lambda>(k, v). (k, v\<lparr>dims := d # dims v\<rparr>)) (AList.delete d (ds_data_vars ds0)),
                ds_coords =
                  AList.update d \<lparr>dims = [d], payload = Labels ls, attrs = []\<rparr> (ds_coords ds0)\<rparr>"
    by (simp add: expand_dims_def split: if_splits)
  show c: "map_of (ds_coords ds) d = Some \<lparr>dims = [d], payload = Labels ls, attrs = []\<rparr>"
    by (simp add: ds AList.update_conv')
  from map_of_SomeD [OF c] show "d \<in> set (dataset_dims ds)"
    by (force simp: dataset_dims_def)
  show "list_all (\<lambda>(k, v). dims v \<noteq> [] \<and> hd (dims v) = d) (ds_data_vars ds)"
    by (simp add: ds list_all_iff split_beta)
  show "map fst (ds_data_vars ds) = map fst (AList.delete d (ds_data_vars ds0))"
    by (simp add: ds split_beta comp_def)
qed

lemma single_via_netcdf_fresh_written:
  assumes fresh: "\<not> os_path_exists w (cache_path store (fn_name R) F)"
    and run: "single_via_netcdf env store R F w = (Inr p, w')"
  shows "\<exists>ds0 ds. call R F = Inr ds0
           \<and> expand_dims ''filename'' [fst (splitext (basename F))] ds0 = Inr ds
           \<and> map_of (files w') p = Some (Complete ds)
           \<and> p = cache_path store (fn_name R) F"
proof -
  from single_via_netcdf_fresh_Inr [OF fresh run]
  obtain ds0 ds w1 where
    c: "call R F = Inr ds0"
    and x: "expand_dims ''filename'' [fst (splitext (basename F))] ds0 = Inr ds"
    and t: "to_netcdf env ds p w1 = (Inr (), w')"
    and p: "p = cache_path store (fn_name R) F"
    by blast
  from to_netcdf_Inr [OF t] have "map_of (files w') p = Some (Complete ds)"
    by (simp add: AList.update_conv')
  with c x p show ?thesis by blast
qed

text \<open>
  Claim C8.  When \<^verbatim>\<open>single_via_netcdf\<close> finds nothing at the canonical path and returns,
  the file it has written there holds a dataset with a coordinate \<^verbatim>\<open>filename\<close> over the
  dimension \<^verbatim>\<open>filename\<close>, whose values are one label: the base name of the source file
  without its extension.  That dimension is the first of every data variable.
\<close>

theorem written_dataset_has_filename:
  assumes fresh: "\<not> os_path_exists w (cache_path store (fn_name R) F)"
    and run: "single_via_netcdf env store R F w = (Inr p, w')"
  shows "\<exists>ds. map_of (files w') p = Some (Complete ds)
           \<and> map_of (ds_coords ds) ''filename''
               = Some \<lparr>dims = [''filename''],
                       payload = Labels [fst (splitext (basename F))], attrs = []\<rparr>
           \<and> ''filename'' \<in> set (dataset_dims ds)
           \<and> list_all (\<lambda>(k, v). dims v \<noteq> [] \<and> hd (dims v) = ''filename'') (ds_data_vars ds)"
proof -
  from single_via_netcdf_fresh_written [OF fresh run]
  obtain ds0 ds where
    x: "expand_dims ''filename'' [fst (splitext (basename F))] ds0 = Inr ds"
    and f: "map_of (files w') p = Some (Complete ds)"
    by blast
  with expand_dims_Inr(1-3) [OF x] show ?thesis by blast
qed

theorem written_dataset_has_filename_witness:
  "\<exists>ds. map_of (files (snd (single_via_netcdf env_ok ''/store'' star_reader stack_1 empty_world)))
            ''/store/L2/20230101/stack_1_star_table.nc'' = Some (Complete ds)
         \<and> map_of (ds_coords ds) ''filename''
             = Some \<lparr>dims = [''filename''], payload = Labels [''stack_1''], attrs = []\<rparr>
         \<and> ''filename'' \<in> set (dataset_dims ds)
         \<and> list_all (\<lambda>(k, v). dims v \<noteq> [] \<and> hd (dims v) = ''filename'') (ds_data_vars ds)"
proof -
  let ?r = "single_via_netcdf env_ok ''/store'' star_reader stack_1 empty_world"
  have fresh: "\<not> os_path_exists empty_world (cache_path ''/store'' (fn_name star_reader) stack_1)"
    by code_simp
  have "fst ?r = Inr ''/store/L2/20230101/stack_1_star_table.nc''"
    by code_simp
  then have run: "?r = (Inr ''/store/L2/20230101/stack_1_star_table.nc'', snd ?r)"
    by (metis prod.collapse)
  have base: "fst (splitext (basename stack_1)) = ''stack_1''"
    by code_simp
  from written_dataset_has_filename [OF fresh run] show ?thesis
    unfolding base .
qed




subsection \<open>The batch\<close>





subsection \<open>Byte order\<close>

lemma significant_swapped:
  "b \<noteq> NotApplicable \<Longrightarrow> significant (swapped b) (rev bs) = significant b bs"
  by (cases b) simp_all

lemma byte_order_swap: "byte_order (byteswap (newbyteorder c)) = swapped (byte_order c)"
  by (simp add: byteswap_def newbyteorder_def)

lemma swapped_NotApplicable: "swapped b = NotApplicable \<longleftrightarrow> b = NotApplicable"
  by (cases b) simp_all

lemma logical_swap: "logical (byteswap (newbyteorder c)) = logical c"
proof (cases "byte_order c = NotApplicable")
  case True
  then show ?thesis by (simp add: logical_def byteswap_def newbyteorder_def)
next
  case False
  then show ?thesis
    by (simp add: logical_def byteswap_def newbyteorder_def significant_swapped
                  swapped_NotApplicable comp_def)
qed

lemma numbers_swap: "numbers np (byteswap (newbyteorder c)) = numbers np c"
  by (simp add: numbers_def logical_swap)

lemma mask_swap: "mask (byteswap (newbyteorder c)) = mask c"
  by (simp add: byteswap_def newbyteorder_def)

lemma has_masked_swap: "has_masked (byteswap (newbyteorder c)) = has_masked c"
  by (simp add: has_masked_def mask_swap)

lemma masked_at_swap: "masked_at (byteswap (newbyteorder c)) = masked_at c"
  by (simp add: masked_at_def mask_swap fun_eq_iff)

lemma unmasked_swap: "unmasked np (byteswap (newbyteorder c)) = unmasked np c"
  by (simp add: unmasked_def numbers_swap masked_at_swap)

lemma cells_swap_Nil: "cells (byteswap (newbyteorder c)) = [] \<longleftrightarrow> cells c = []"
  by (simp add: byteswap_def newbyteorder_def)

lemma swapped_native:
  "native \<noteq> NotApplicable \<Longrightarrow>
     is_native native (byteswap (newbyteorder c))
       = (byte_order c = NotApplicable \<or> \<not> is_native native c)"
  by (cases "byte_order c"; cases native) (simp_all add: is_native_def byte_order_swap)

subsection \<open>The steps of a reader\<close>

lemma Variable_Inr:
  "Variable ds p as = Inr v \<Longrightarrow>
     dims v = ds \<and> payload v = as_compatible_data p \<and> attrs v = as"
  by (auto simp: Variable_def split: if_splits)

lemma label_cols_Inr:
  "label_cols dims_of cols = Inr vars \<Longrightarrow>
     list_all2 (\<lambda>(c, col) (k, v). k = c \<and> dims v = dims_of c
                  \<and> payload v = as_compatible_data (Column col) \<and> attrs v = [(''unit'', unit_str col)])
       cols vars"
proof (induction cols arbitrary: vars)
  case Nil
  then show ?case by simp
next
  case (Cons a cols)
  obtain c col where a: "a = (c, col)" by (cases a)
  from Cons.prems a obtain v vs where
    v: "Variable (dims_of c) (Column col) [(''unit'', unit_str col)] = Inr v"
    and vs: "label_cols dims_of cols = Inr vs"
    and "vars = (c, v) # vs"
    by (auto split: sum.splits)
  with Cons.IH [OF vs] Variable_Inr [OF v] a show ?case by simp
qed

lemma Dataset_Inr:
  "Dataset vars cs = Inr ds \<Longrightarrow> ds_data_vars ds = vars \<and> as_variables cs = Inr (ds_coords ds)"
  by (auto simp: Dataset_def split: if_splits sum.splits)

lemma read_cols_Inr:
  assumes "read_cols disk fn hdu = Inr (cols, coords)"
  shows "\<exists>dat aps. Table_read disk fn hdu = Inr dat
           \<and> map_of (swap_cols dat) ''APS_ID'' = Some aps
           \<and> cols = AList.delete ''APS_ID'' (swap_cols dat)
           \<and> coords = [(''APS_ID'', Column aps)]"
proof -
  from assms obtain dat where d: "Table_read disk fn hdu = Inr dat"
    by (cases "Table_read disk fn hdu") (simp_all add: read_cols_def)
  with assms obtain aps where "map_of (swap_cols dat) ''APS_ID'' = Some aps"
    by (cases "map_of (swap_cols dat) ''APS_ID''") (simp_all add: read_cols_def dict_pop_def)
  with assms d show ?thesis
    by (simp add: read_cols_def dict_pop_def)
qed

lemma labelled_leads:
  assumes "label_cols dims_of cols = Inr vars"
    and "\<And>c. prefix [''APS_ID''] (dims_of c)"
  shows "list_all (\<lambda>(k, v). prefix [''APS_ID''] (dims v)) vars"
proof -
  from label_cols_Inr [OF assms(1)]
  have "list_all2 (\<lambda>(c, col) (k, v). prefix [''APS_ID''] (dims v)) cols vars"
    by (rule list_all2_mono) (auto simp: assms(2))
  then show ?thesis
    by (fastforce simp: list_all_iff list_all2_conv_all_nth in_set_conv_nth)
qed

lemma class_table_dims_leads: "prefix [''APS_ID''] (class_table_dims c)"
  by (simp add: class_table_dims_def)

lemma star_table_dims_leads: "prefix [''APS_ID''] (star_table_dims c)"
  by (simp add: star_table_dims_def)

lemma galaxy_table_dims_leads: "prefix [''APS_ID''] (galaxy_table_dims c)"
  by (simp add: galaxy_table_dims_def)

lemma class_spec_dims_leads: "prefix [''APS_ID''] (class_spec_dims c)"
  by (simp add: class_spec_dims_def)

lemma star_spec_dims_leads: "prefix [''APS_ID''] (star_spec_dims c)"
  by (simp add: star_spec_dims_def)

lemma galaxy_spec_dims_leads: "prefix [''APS_ID''] (galaxy_spec_dims c)"
  by (simp add: galaxy_spec_dims_def)

lemma list_all_update:
  "list_all (\<lambda>(k, v). P v) al \<Longrightarrow> P v \<Longrightarrow> list_all (\<lambda>(k, v). P v) (AList.update k v al)"
  by (induction al) (auto simp: split_beta)

lemma galaxy_table_loop_inv:
  assumes "galaxy_table_loop i cols out_cols = Inr out"
    and "list_all (\<lambda>(k, v). P (dims v) (payload v)) out_cols"
    and "\<And>c col. (c, col) \<in> set cols \<Longrightarrow>
           P (galaxy_table_dims c) (as_compatible_data (Column col))"
  shows "list_all (\<lambda>(k, v). P (dims v) (payload v)) out"
  using assms
proof (induction cols arbitrary: i out_cols)
  case Nil
  then show ?case by simp
next
  case (Cons a cols)
  obtain c col where a: "a = (c, col)" by (cases a)
  from Cons.prems(1) a obtain v where
    v: "Variable (galaxy_table_dims c) (Column col) [(''unit'', unit_str col)] = Inr v"
    and l: "galaxy_table_loop (Suc i) cols (AList.update (galaxy_out_name i c) v out_cols) = Inr out"
    by (auto split: sum.splits)
  from Variable_Inr [OF v] Cons.prems(3) [of c col] a
  have "P (dims v) (payload v)" by simp
  with Cons.prems(2)
  have "list_all (\<lambda>(k, v). P (dims v) (payload v)) (AList.update (galaxy_out_name i c) v out_cols)"
    by (rule list_all_update)
  from Cons.IH [OF l this] Cons.prems(3) show ?case by simp
qed

subsection \<open>Promotion to a shared coordinate\<close>

lemma class_table_promote_eq:
  "class_table_promote np cs cols coords = promote np czz_axis (\<lambda>c. c) cs cols coords"
  by (induction cs arbitrary: cols coords)
    (simp_all add: czz_axis_def Let_def split: sum.splits prod.splits)

lemma class_spec_promote_eq:
  "class_spec_promote np cs cols coords = promote np lambda_axis lambda_key cs cols coords"
  by (induction cs arbitrary: cols coords)
    (simp_all add: lambda_axis_def lambda_key_def Let_def split: sum.splits prod.splits)

lemma dict_pop_Inr:
  "dict_pop k d = Inr (v, d') \<longleftrightarrow> map_of d k = Some v \<and> d' = AList.delete k d"
  by (auto simp: dict_pop_def split: option.splits)

lemma dict_pop_Inl:
  "dict_pop k d = Inl e \<longleftrightarrow> map_of d k = None \<and> e = KeyError"
  by (auto simp: dict_pop_def split: option.splits)

text \<open>The columns that remain are those the loop did not take.\<close>

lemma promote_cols:
  "promote np taken key cs cols coords = Inr (cols', coords') \<Longrightarrow>
     cols' = filter (\<lambda>(k, v). \<not> (k \<in> set cs \<and> taken k)) cols"
proof (induction cs arbitrary: cols coords)
  case Nil
  then show ?case by simp
next
  case (Cons c cs)
  show ?case
  proof (cases "taken c")
    case True
    with Cons.prems obtain x_all where
      r: "promote np taken key cs (AList.delete c cols)
            (AList.update (key c) (Array (cell_shape x_all) (rounded_mean np x_all)) coords)
          = Inr (cols', coords')"
      by (auto simp: dict_pop_Inr split: sum.splits if_splits)
    from Cons.IH [OF r] True show ?thesis
      by (auto simp: AList.delete_eq intro!: filter_cong)
  next
    case False
    with Cons.prems have "promote np taken key cs cols coords = Inr (cols', coords')"
      by simp
    from Cons.IH [OF this] False show ?thesis
      by (auto intro!: filter_cong)
  qed
qed

text \<open>Every column taken has passed the assertion.\<close>

lemma promote_agree:
  "promote np taken key cs cols coords = Inr (cols', coords') \<Longrightarrow> distinct cs \<Longrightarrow>
     c \<in> set cs \<Longrightarrow> taken c \<Longrightarrow>
     \<exists>x. map_of cols c = Some x \<and> rows_agree np (rounded_mean np x) x"
proof (induction cs arbitrary: cols coords)
  case Nil
  then show ?case by simp
next
  case (Cons a cs)
  show ?case
  proof (cases "taken a")
    case True
    with Cons.prems(1) obtain x_all where
      x: "map_of cols a = Some x_all"
      and ok: "rows_agree np (rounded_mean np x_all) x_all"
      and r: "promote np taken key cs (AList.delete a cols)
            (AList.update (key a) (Array (cell_shape x_all) (rounded_mean np x_all)) coords)
          = Inr (cols', coords')"
      by (auto simp: dict_pop_Inr split: sum.splits if_splits)
    show ?thesis
    proof (cases "c = a")
      case True
      with x ok show ?thesis by simp
    next
      case False
      with Cons.prems have "c \<in> set cs" "distinct cs" by simp_all
      from Cons.IH [OF r this(2) this(1) Cons.prems(4)] False show ?thesis
        by (simp add: AList.delete_conv')
    qed
  next
    case False
    with Cons.prems have r: "promote np taken key cs cols coords = Inr (cols', coords')"
      and "c \<in> set cs" "distinct cs"
      by auto
    from Cons.IH [OF r this(3) this(2) Cons.prems(4)] show ?thesis .
  qed
qed

text \<open>Every column taken has its coordinate.\<close>

lemma promote_coords_keys:
  "promote np taken key cs cols coords = Inr (cols', coords') \<Longrightarrow>
     fst ` set coords' = fst ` set coords \<union> key ` {c \<in> set cs. taken c}"
proof (induction cs arbitrary: cols coords)
  case Nil
  then show ?case by simp
next
  case (Cons a cs)
  show ?case
  proof (cases "taken a")
    case True
    with Cons.prems(1) obtain x_all where
      r: "promote np taken key cs (AList.delete a cols)
            (AList.update (key a) (Array (cell_shape x_all) (rounded_mean np x_all)) coords)
          = Inr (cols', coords')"
      by (auto simp: dict_pop_Inr split: sum.splits if_splits)
    from Cons.IH [OF r] True show ?thesis
      by (auto simp: AList.dom_update)
  next
    case False
    with Cons.prems have r: "promote np taken key cs cols coords = Inr (cols', coords')"
      by simp
    from Cons.IH [OF r] False show ?thesis by auto
  qed
qed

lemma promote_coords_other:
  "promote np taken key cs cols coords = Inr (cols', coords') \<Longrightarrow>
     k \<notin> key ` {c \<in> set cs. taken c} \<Longrightarrow> map_of coords' k = map_of coords k"
proof (induction cs arbitrary: cols coords)
  case Nil
  then show ?case by simp
next
  case (Cons a cs)
  show ?case
  proof (cases "taken a")
    case True
    with Cons.prems(1) obtain x_all where
      r: "promote np taken key cs (AList.delete a cols)
            (AList.update (key a) (Array (cell_shape x_all) (rounded_mean np x_all)) coords)
          = Inr (cols', coords')"
      by (auto simp: dict_pop_Inr split: sum.splits if_splits)
    from Cons.prems(2) True have "k \<noteq> key a" "k \<notin> key ` {c \<in> set cs. taken c}"
      by auto
    from Cons.IH [OF r this(2)] this(1) show ?thesis
      by (simp add: AList.update_conv')
  next
    case False
    with Cons.prems have r: "promote np taken key cs cols coords = Inr (cols', coords')"
      and "k \<notin> key ` {c \<in> set cs. taken c}"
      by auto
    from Cons.IH [OF this] show ?thesis .
  qed
qed

text \<open>With coordinate names that do not clash, the coordinate is the column's rounded mean.\<close>

lemma promote_coords_value:
  "promote np taken key cs cols coords = Inr (cols', coords') \<Longrightarrow> distinct cs \<Longrightarrow>
     inj_on key {c \<in> set cs. taken c} \<Longrightarrow> c \<in> set cs \<Longrightarrow> taken c \<Longrightarrow>
     \<exists>x. map_of cols c = Some x
          \<and> map_of coords' (key c) = Some (Array (cell_shape x) (rounded_mean np x))"
proof (induction cs arbitrary: cols coords)
  case Nil
  then show ?case by simp
next
  case (Cons a cs)
  show ?case
  proof (cases "taken a")
    case True
    with Cons.prems(1) obtain x_all where
      x: "map_of cols a = Some x_all"
      and r: "promote np taken key cs (AList.delete a cols)
            (AList.update (key a) (Array (cell_shape x_all) (rounded_mean np x_all)) coords)
          = Inr (cols', coords')"
      by (auto simp: dict_pop_Inr split: sum.splits if_splits)
    have inj: "inj_on key {c \<in> set cs. taken c}"
      using Cons.prems(3) by (rule inj_on_subset) auto
    show ?thesis
    proof (cases "c = a")
      case ca: True
      have "key a \<notin> key ` {c \<in> set cs. taken c}"
      proof
        assume "key a \<in> key ` {c \<in> set cs. taken c}"
        then obtain b where b: "b \<in> set cs" "taken b" "key a = key b" by auto
        with Cons.prems(3) True have "a = b"
          by (auto simp: inj_on_def)
        with b(1) Cons.prems(2) show False by simp
      qed
      from promote_coords_other [OF r this] x ca show ?thesis
        by (simp add: AList.update_conv')
    next
      case False
      with Cons.prems have "c \<in> set cs" "distinct cs" by simp_all
      from Cons.IH [OF r this(2) inj this(1) Cons.prems(5)] False show ?thesis
        by (simp add: AList.delete_conv')
    qed
  next
    case False
    with Cons.prems have r: "promote np taken key cs cols coords = Inr (cols', coords')"
      and "c \<in> set cs" "distinct cs" "inj_on key {c \<in> set cs. taken c}"
      by (auto simp: inj_on_def)
    from Cons.IH [OF r this(3) this(4) this(2) Cons.prems(5)] show ?thesis .
  qed
qed

text \<open>A column taken that fails the assertion makes the loop fail with it.\<close>

lemma promote_fails:
  "distinct cs \<Longrightarrow> set cs \<subseteq> fst ` set cols \<Longrightarrow> c \<in> set cs \<Longrightarrow> taken c \<Longrightarrow>
     map_of cols c = Some x \<Longrightarrow> \<not> rows_agree np (rounded_mean np x) x \<Longrightarrow>
     promote np taken key cs cols coords = Inl AssertionError"
proof (induction cs arbitrary: cols coords)
  case Nil
  then show ?case by simp
next
  case (Cons a cs)
  from Cons.prems(2) obtain y where y: "map_of cols a = Some y"
    by (cases "map_of cols a") (auto simp: map_of_eq_None_iff)
  have sub: "set cs \<subseteq> fst ` set (AList.delete a cols)"
    using Cons.prems(1,2) by (auto simp: AList.delete_eq) force
  show ?case
  proof (cases "c = a")
    case True
    with Cons.prems y show ?thesis
      by (simp add: dict_pop_def)
  next
    case False
    with Cons.prems have c: "c \<in> set cs" "distinct cs" "set cs \<subseteq> fst ` set cols"
      by auto
    from False Cons.prems(5) have m: "map_of (AList.delete a cols) c = Some x"
      by (simp add: AList.delete_conv')
    show ?thesis
    proof (cases "taken a \<and> rows_agree np (rounded_mean np y) y")
      case True
      with y show ?thesis
        using Cons.IH [OF c(2) sub c(1) Cons.prems(4) m Cons.prems(6)]
        by (simp add: dict_pop_def)
    next
      case False
      then show ?thesis
        using Cons.IH [OF c(2) c(3) c(1) Cons.prems(4) Cons.prems(5) Cons.prems(6)] y
        by (auto simp: dict_pop_def)
    qed
  qed
qed

subsection \<open>The readers, step by step\<close>

lemma as_variables_Inr:
  "as_variables cs = Inr cvs \<Longrightarrow>
     map fst cvs = map fst cs
     \<and> (\<forall>k p. map_of cs k = Some p \<longrightarrow>
           (\<exists>v. map_of cvs k = Some v \<and> payload v = as_compatible_data p))"
proof (induction cs arbitrary: cvs)
  case Nil
  then show ?case by simp
next
  case (Cons a cs)
  obtain k p where a: "a = (k, p)" by (cases a)
  from Cons.prems a obtain v vs where
    v: "as_variable k p = Inr v"
    and vs: "as_variables cs = Inr vs"
    and cvs: "cvs = (k, v) # vs"
    by (auto split: sum.splits)
  from v have "payload v = as_compatible_data p"
    by (auto simp: as_variable_def split: if_splits)
  with Cons.IH [OF vs] a cvs show ?case by auto
qed

lemma read_star_table_Inr:
  assumes "read_star_table disk fn = Inr ds"
  shows "\<exists>cols coords vars. read_cols disk fn ''STAR_TABLE'' = Inr (cols, coords)
           \<and> label_cols star_table_dims cols = Inr vars
           \<and> Dataset vars
                 (AList.update ''I_COVAR''
                    (Labels [''TEFF'', ''LOGG'', ''FEH'', ''ALPHA'', ''MICRO''])
                    (AList.update ''J_COVAR''
                       (Labels [''TEFF'', ''LOGG'', ''FEH'', ''ALPHA'', ''MICRO'']) coords))
               = Inr ds"
  using assms unfolding read_star_table_def Let_def
  by (auto split: sum.splits prod.splits)

lemma read_star_spec_Inr:
  assumes "read_star_spec disk fn = Inr ds"
  shows "\<exists>cols coords vars. read_cols disk fn ''STAR_SPEC'' = Inr (cols, coords)
           \<and> label_cols star_spec_dims cols = Inr vars \<and> Dataset vars coords = Inr ds"
  using assms unfolding read_star_spec_def
  by (auto split: sum.splits prod.splits)

lemma read_galaxy_spec_Inr:
  assumes "read_galaxy_spec disk fn = Inr ds"
  shows "\<exists>cols coords vars. read_cols disk fn ''GALAXY_SPEC'' = Inr (cols, coords)
           \<and> label_cols galaxy_spec_dims cols = Inr vars \<and> Dataset vars coords = Inr ds"
  using assms unfolding read_galaxy_spec_def
  by (auto split: sum.splits prod.splits)

lemma read_galaxy_table_Inr:
  assumes "read_galaxy_table disk fn = Inr ds"
  shows "\<exists>cols coords out_cols. read_cols disk fn ''GALAXY_TABLE'' = Inr (cols, coords)
           \<and> galaxy_table_loop 0 cols [] = Inr out_cols \<and> Dataset out_cols coords = Inr ds"
  using assms unfolding read_galaxy_table_def
  by (auto split: sum.splits prod.splits)

lemma read_class_table_Inr:
  assumes "read_class_table np disk fn = Inr ds"
  shows "\<exists>cols coords cols' coords' vars.
           read_cols disk fn ''CLASS_TABLE'' = Inr (cols, coords)
           \<and> promote np czz_axis (\<lambda>c. c) (map fst cols) cols coords = Inr (cols', coords')
           \<and> label_cols class_table_dims cols' = Inr vars \<and> Dataset vars coords' = Inr ds"
  using assms unfolding read_class_table_def class_table_promote_eq
  by (auto split: sum.splits prod.splits)

lemma read_class_spec_Inr:
  assumes "read_class_spec np disk fn = Inr ds"
  shows "\<exists>cols coords cols' coords' vars.
           read_cols disk fn ''CLASS_SPEC'' = Inr (cols, coords)
           \<and> promote np lambda_axis lambda_key (map fst cols) cols coords = Inr (cols', coords')
           \<and> label_cols class_spec_dims cols' = Inr vars \<and> Dataset vars coords' = Inr ds"
  using assms unfolding read_class_spec_def class_spec_promote_eq
  by (auto split: sum.splits prod.splits)

lemma labelled_dataset_leads:
  assumes "label_cols dims_of cols = Inr vars" and "Dataset vars cs = Inr ds"
    and "\<And>c. prefix [''APS_ID''] (dims_of c)"
  shows "aps_id_leads ds"
  using labelled_leads [OF assms(1), OF assms(3)] Dataset_Inr [OF assms(2)]
  by (simp add: aps_id_leads_def)

text \<open>
  Claim C9.  Whenever one of the six readers returns a dataset, the list of
  dimensions of every data variable of it begins with \<^verbatim>\<open>APS_ID\<close>.
\<close>

theorem aps_id_leads_every_variable:
  "(read_class_table np disk fn = Inr ds \<longrightarrow> aps_id_leads ds)
   \<and> (read_star_table disk fn = Inr ds \<longrightarrow> aps_id_leads ds)
   \<and> (read_galaxy_table disk fn = Inr ds \<longrightarrow> aps_id_leads ds)
   \<and> (read_class_spec np disk fn = Inr ds \<longrightarrow> aps_id_leads ds)
   \<and> (read_star_spec disk fn = Inr ds \<longrightarrow> aps_id_leads ds)
   \<and> (read_galaxy_spec disk fn = Inr ds \<longrightarrow> aps_id_leads ds)"
proof (intro conjI impI)
  assume "read_class_table np disk fn = Inr ds"
  from read_class_table_Inr [OF this] show "aps_id_leads ds"
    by (auto intro: labelled_dataset_leads class_table_dims_leads)
next
  assume "read_star_table disk fn = Inr ds"
  from read_star_table_Inr [OF this] show "aps_id_leads ds"
    by (auto intro: labelled_dataset_leads star_table_dims_leads)
next
  assume "read_galaxy_table disk fn = Inr ds"
  from read_galaxy_table_Inr [OF this] obtain cols coords out_cols where
    l: "galaxy_table_loop 0 cols [] = Inr out_cols" and d: "Dataset out_cols coords = Inr ds"
    by blast
  have "list_all (\<lambda>(k, v). prefix [''APS_ID''] (dims v)) out_cols"
    by (rule galaxy_table_loop_inv [OF l, where P = "\<lambda>ds p. prefix [''APS_ID''] ds"])
      (simp_all add: galaxy_table_dims_leads)
  with Dataset_Inr [OF d] show "aps_id_leads ds"
    by (simp add: aps_id_leads_def)
next
  assume "read_class_spec np disk fn = Inr ds"
  from read_class_spec_Inr [OF this] show "aps_id_leads ds"
    by (auto intro: labelled_dataset_leads class_spec_dims_leads)
next
  assume "read_star_spec disk fn = Inr ds"
  from read_star_spec_Inr [OF this] show "aps_id_leads ds"
    by (auto intro: labelled_dataset_leads star_spec_dims_leads)
next
  assume "read_galaxy_spec disk fn = Inr ds"
  from read_galaxy_spec_Inr [OF this] show "aps_id_leads ds"
    by (auto intro: labelled_dataset_leads galaxy_spec_dims_leads)
qed

theorem aps_id_leads_every_variable_witness:
  "\<exists>ds1 ds2 ds3 ds4 ds5 ds6.
     read_class_table exact_numpy example_disk stack_1 = Inr ds1 \<and> aps_id_leads ds1
     \<and> read_star_table example_disk stack_1 = Inr (ds2 :: number dataset) \<and> aps_id_leads ds2
     \<and> read_galaxy_table example_disk stack_1 = Inr (ds3 :: number dataset) \<and> aps_id_leads ds3
     \<and> read_class_spec exact_numpy example_disk stack_1 = Inr ds4 \<and> aps_id_leads ds4
     \<and> read_star_spec example_disk stack_1 = Inr (ds5 :: number dataset) \<and> aps_id_leads ds5
     \<and> read_galaxy_spec example_disk stack_1 = Inr (ds6 :: number dataset) \<and> aps_id_leads ds6"
proof -
  have "\<not> isl (read_class_table exact_numpy example_disk stack_1)" by code_simp
  then obtain ds1 where r1: "read_class_table exact_numpy example_disk stack_1 = Inr ds1"
    by (cases "read_class_table exact_numpy example_disk stack_1") simp_all
  have "\<not> isl (read_star_table example_disk stack_1 :: error + number dataset)" by code_simp
  then obtain ds2 :: "number dataset" where r2: "read_star_table example_disk stack_1 = Inr ds2"
    by (cases "read_star_table example_disk stack_1 :: error + number dataset") simp_all
  have "\<not> isl (read_galaxy_table example_disk stack_1 :: error + number dataset)" by code_simp
  then obtain ds3 :: "number dataset" where r3: "read_galaxy_table example_disk stack_1 = Inr ds3"
    by (cases "read_galaxy_table example_disk stack_1 :: error + number dataset") simp_all
  have "\<not> isl (read_class_spec exact_numpy example_disk stack_1)" by code_simp
  then obtain ds4 where r4: "read_class_spec exact_numpy example_disk stack_1 = Inr ds4"
    by (cases "read_class_spec exact_numpy example_disk stack_1") simp_all
  have "\<not> isl (read_star_spec example_disk stack_1 :: error + number dataset)" by code_simp
  then obtain ds5 :: "number dataset" where r5: "read_star_spec example_disk stack_1 = Inr ds5"
    by (cases "read_star_spec example_disk stack_1 :: error + number dataset") simp_all
  have "\<not> isl (read_galaxy_spec example_disk stack_1 :: error + number dataset)" by code_simp
  then obtain ds6 :: "number dataset" where r6: "read_galaxy_spec example_disk stack_1 = Inr ds6"
    by (cases "read_galaxy_spec example_disk stack_1 :: error + number dataset") simp_all
  from aps_id_leads_every_variable [of exact_numpy example_disk stack_1 ds1] r1
  have a1: "aps_id_leads ds1" by simp
  from aps_id_leads_every_variable [of exact_numpy example_disk stack_1 ds2] r2
  have a2: "aps_id_leads ds2" by simp
  from aps_id_leads_every_variable [of exact_numpy example_disk stack_1 ds3] r3
  have a3: "aps_id_leads ds3" by simp
  from aps_id_leads_every_variable [of exact_numpy example_disk stack_1 ds4] r4
  have a4: "aps_id_leads ds4" by simp
  from aps_id_leads_every_variable [of exact_numpy example_disk stack_1 ds5] r5
  have a5: "aps_id_leads ds5" by simp
  from aps_id_leads_every_variable [of exact_numpy example_disk stack_1 ds6] r6
  have a6: "aps_id_leads ds6" by simp
  from r1 r2 r3 r4 r5 r6 a1 a2 a3 a4 a5 a6 show ?thesis by blast
qed

subsection \<open>Byte order of the columns read\<close>

lemma swap_cols_set:
  "(k, c') \<in> set (swap_cols dat) \<Longrightarrow> \<exists>c. (k, c) \<in> set dat \<and> c' = byteswap (newbyteorder c)"
  by (auto simp: swap_cols_def)

lemma read_cols_subset:
  assumes "read_cols disk fn hdu = Inr (cols, coords)" and "Table_read disk fn hdu = Inr dat"
  shows "set cols \<subseteq> set (swap_cols dat)"
proof -
  from read_cols_Inr [OF assms(1)] assms(2)
  have "cols = AList.delete ''APS_ID'' (swap_cols dat)" by auto
  then show ?thesis by (auto simp: AList.delete_eq)
qed

text \<open>
  The claim as the specification states it fails where a column is in native order
  when it is read: on a little-endian machine the column \<^verbatim>\<open>ELEM\<close> of the example, held
  in little-endian order, is returned in big-endian order.
\<close>

theorem native_column_counterexample:
  "is_native LittleEndian elem_column
   \<and> map_option (is_native LittleEndian)
       (column_of (projr (read_star_table example_disk stack_1 :: error + number dataset)) ''ELEM'')
       = Some False
   \<and> map_option logical
       (column_of (projr (read_star_table example_disk stack_1 :: error + number dataset)) ''ELEM'')
       = Some (logical elem_column)"
  by code_simp

subsection \<open>The assertion of the promotion\<close>

lemma cell_shape_swap: "cell_shape (byteswap (newbyteorder c)) = cell_shape c"
  by (simp add: byteswap_def newbyteorder_def)

lemma rounded_mean_swap: "rounded_mean np (byteswap (newbyteorder c)) = rounded_mean np c"
  by (simp add: rounded_mean_def unmasked_swap cells_swap_Nil cell_shape_swap)

lemma rows_agree_swap: "rows_agree np m (byteswap (newbyteorder c)) = rows_agree np m c"
  by (simp add: rows_agree_def all_masked_def unmasked_swap)

lemma map_fst_swap_cols: "map fst (swap_cols dat) = map fst dat"
  by (simp add: swap_cols_def split_beta comp_def)

lemma keys_swap_cols: "fst ` set (swap_cols dat) = fst ` set dat"
  using map_fst_swap_cols [of dat] by (metis list.set_map)

lemma map_of_swap_cols:
  "map_of (swap_cols dat) k = map_option (\<lambda>c. byteswap (newbyteorder c)) (map_of dat k)"
  by (induction dat) (auto simp: swap_cols_def)

lemma map_of_distinct:
  "distinct (map fst dat) \<Longrightarrow> (c, col) \<in> set dat \<Longrightarrow> map_of dat c = Some col"
  by simp

text \<open>The state in which a reader enters its promotion loop.\<close>

lemma read_cols_table:
  assumes t: "Table_read disk fn hdu = Inr dat"
    and dist: "distinct (map fst dat)"
    and aps: "''APS_ID'' \<in> fst ` set dat"
  shows "\<exists>a. read_cols disk fn hdu
               = Inr (AList.delete ''APS_ID'' (swap_cols dat), [(''APS_ID'', Column a)])"
proof -
  from aps have "''APS_ID'' \<in> fst ` set (swap_cols dat)"
    by (simp add: keys_swap_cols)
  then obtain a where "map_of (swap_cols dat) ''APS_ID'' = Some a"
    by (cases "map_of (swap_cols dat) ''APS_ID''") (simp_all add: map_of_eq_None_iff)
  with t show ?thesis
    by (simp add: read_cols_def dict_pop_def)
qed

lemma entering_loop:
  assumes dist: "distinct (map fst dat)"
    and c: "(c, col) \<in> set dat" and ne: "c \<noteq> ''APS_ID''"
  defines "cols \<equiv> AList.delete ''APS_ID'' (swap_cols dat)"
  shows "distinct (map fst cols)" and "c \<in> set (map fst cols)"
    and "map_of cols c = Some (byteswap (newbyteorder col))"
proof -
  show "distinct (map fst cols)"
    using dist by (simp add: cols_def AList.distinct_delete map_fst_swap_cols)
  have m: "map_of cols c = Some (byteswap (newbyteorder col))"
    using map_of_distinct [OF dist c] ne
    by (simp add: cols_def AList.delete_conv' map_of_swap_cols)
  then show "map_of cols c = Some (byteswap (newbyteorder col))" .
  from map_of_SomeD [OF m] show "c \<in> set (map fst cols)"
    by force
qed


lemma label_cols_keys:
  "label_cols dims_of cols = Inr vars \<Longrightarrow> map fst vars = map fst cols"
proof -
  assume "label_cols dims_of cols = Inr vars"
  from label_cols_Inr [OF this]
  have "list_all2 (\<lambda>x y. fst y = fst x) cols vars"
    by (rule list_all2_mono) auto
  then show ?thesis
    by (induction cols vars rule: list_all2_induct) simp_all
qed

text \<open>
  What the promotion loop, entered with the columns of a table, means for a column
  it takes: when the reader goes on to return a dataset, and when the column's rows
  disagree.
\<close>

lemma promotion_returns:
  assumes dist: "distinct (map fst dat)"
    and c: "(c, col) \<in> set dat" and ne: "c \<noteq> ''APS_ID''" and tk: "taken c"
    and p: "promote np taken key (map fst (AList.delete ''APS_ID'' (swap_cols dat)))
              (AList.delete ''APS_ID'' (swap_cols dat)) coords = Inr (cols', coords')"
    and l: "label_cols dims_of cols' = Inr vars"
    and d: "Dataset vars coords' = Inr ds"
  shows "rows_agree np (rounded_mean np col) col"
    and "c \<notin> fst ` set (ds_data_vars ds)"
    and "key c \<in> fst ` set (ds_coords ds)"
    and "inj_on key {k \<in> fst ` set dat. taken k} \<Longrightarrow>
           \<exists>v. map_of (ds_coords ds) (key c) = Some v
                \<and> payload v = Array (cell_shape col) (rounded_mean np col)"
proof -
  let ?cols = "AList.delete ''APS_ID'' (swap_cols dat)"
  note e = entering_loop [OF dist c ne]
  from promote_agree [OF p e(1) e(2) tk] e(3)
  show "rows_agree np (rounded_mean np col) col"
    by (simp add: rounded_mean_swap rows_agree_swap)
  have "c \<notin> fst ` set cols'"
  proof
    assume "c \<in> fst ` set cols'"
    then obtain b where "(c, b) \<in> set cols'" by auto
    with promote_cols [OF p] have "\<not> (c \<in> set (map fst ?cols) \<and> taken c)"
      by simp
    with e(2) tk show False by simp
  qed
  moreover from label_cols_keys [OF l] have "fst ` set vars = fst ` set cols'"
    by (metis list.set_map)
  ultimately show "c \<notin> fst ` set (ds_data_vars ds)"
    using Dataset_Inr [OF d] by simp
  from Dataset_Inr [OF d] have av: "as_variables coords' = Inr (ds_coords ds)"
    by simp
  from as_variables_Inr [OF av] have keys: "fst ` set (ds_coords ds) = fst ` set coords'"
    by (metis list.set_map)
  from promote_coords_keys [OF p] e(2) tk show "key c \<in> fst ` set (ds_coords ds)"
    unfolding keys by auto
  show "\<exists>v. map_of (ds_coords ds) (key c) = Some v
                \<and> payload v = Array (cell_shape col) (rounded_mean np col)"
    if inj: "inj_on key {k \<in> fst ` set dat. taken k}"
  proof -
    have "set ?cols \<subseteq> set (swap_cols dat)"
      by (auto simp: AList.delete_eq)
    then have "fst ` set ?cols \<subseteq> fst ` set dat"
      unfolding keys_swap_cols [of dat, symmetric] by (rule image_mono)
    then have "{k \<in> set (map fst ?cols). taken k} \<subseteq> {k \<in> fst ` set dat. taken k}"
      by auto
    with inj have "inj_on key {k \<in> set (map fst ?cols). taken k}"
      by (rule inj_on_subset)
    from promote_coords_value [OF p e(1) this e(2) tk] e(3)
    have "map_of coords' (key c) = Some (Array (cell_shape col) (rounded_mean np col))"
      by (simp add: rounded_mean_swap cell_shape_swap)
    with as_variables_Inr [OF av] obtain v where
      "map_of (ds_coords ds) (key c) = Some v"
      "payload v = as_compatible_data (Array (cell_shape col) (rounded_mean np col))"
      by blast
    then show ?thesis by simp
  qed
qed

lemma promotion_fails:
  assumes dist: "distinct (map fst dat)"
    and c: "(c, col) \<in> set dat" and ne: "c \<noteq> ''APS_ID''" and tk: "taken c"
    and bad: "\<not> rows_agree np (rounded_mean np col) col"
  shows "promote np taken key (map fst (AList.delete ''APS_ID'' (swap_cols dat)))
           (AList.delete ''APS_ID'' (swap_cols dat)) coords = Inl AssertionError"
proof -
  note e = entering_loop [OF dist c ne]
  from bad have "\<not> rows_agree np (rounded_mean np (byteswap (newbyteorder col)))
                   (byteswap (newbyteorder col))"
    by (simp add: rounded_mean_swap rows_agree_swap)
  with e tk show ?thesis
    by (intro promote_fails) simp_all
qed

lemma czz_axis_not_key: "czz_axis c \<Longrightarrow> c \<noteq> ''APS_ID''"
  by (auto simp: czz_axis_def)

lemma lambda_axis_not_key: "lambda_axis c \<Longrightarrow> c \<noteq> ''APS_ID''"
  by (auto simp: lambda_axis_def)

lemma class_table_fails:
  fixes np :: "'v numpy"
  assumes t: "Table_read disk fn ''CLASS_TABLE'' = Inr dat"
    and dist: "distinct (map fst dat)" and aps: "''APS_ID'' \<in> fst ` set dat"
    and c: "(c, col) \<in> set dat" and tk: "czz_axis c"
    and bad: "\<not> rows_agree np (rounded_mean np col) col"
  shows "read_class_table np disk fn = Inl AssertionError"
proof -
  from read_cols_table [OF t dist aps] obtain a where
    r: "read_cols disk fn ''CLASS_TABLE''
          = Inr (AList.delete ''APS_ID'' (swap_cols dat), [(''APS_ID'', Column a :: 'v payload)])"
    by blast
  from promotion_fails [where taken = czz_axis and key = "\<lambda>c. c", OF dist c czz_axis_not_key [OF tk] tk bad] r show ?thesis
    by (simp add: read_class_table_def class_table_promote_eq)
qed

lemma class_spec_fails:
  fixes np :: "'v numpy"
  assumes t: "Table_read disk fn ''CLASS_SPEC'' = Inr dat"
    and dist: "distinct (map fst dat)" and aps: "''APS_ID'' \<in> fst ` set dat"
    and c: "(c, col) \<in> set dat" and tk: "lambda_axis c"
    and bad: "\<not> rows_agree np (rounded_mean np col) col"
  shows "read_class_spec np disk fn = Inl AssertionError"
proof -
  from read_cols_table [OF t dist aps] obtain a where
    r: "read_cols disk fn ''CLASS_SPEC''
          = Inr (AList.delete ''APS_ID'' (swap_cols dat), [(''APS_ID'', Column a :: 'v payload)])"
    by blast
  from promotion_fails [where taken = lambda_axis and key = lambda_key, OF dist c lambda_axis_not_key [OF tk] tk bad] r show ?thesis
    by (simp add: read_class_spec_def class_spec_promote_eq)
qed

lemma class_table_returns:
  assumes t: "Table_read disk fn ''CLASS_TABLE'' = Inr dat"
    and dist: "distinct (map fst dat)"
    and c: "(c, col) \<in> set dat" and tk: "czz_axis c"
    and ret: "read_class_table np disk fn = Inr ds"
  shows "rows_agree np (rounded_mean np col) col \<and> c \<notin> fst ` set (ds_data_vars ds)
         \<and> (\<exists>v. map_of (ds_coords ds) c = Some v
                \<and> payload v = Array (cell_shape col) (rounded_mean np col))"
proof -
  from read_class_table_Inr [OF ret] obtain cols coords cols' coords' vars where
    r: "read_cols disk fn ''CLASS_TABLE'' = Inr (cols, coords)"
    and p: "promote np czz_axis (\<lambda>c. c) (map fst cols) cols coords = Inr (cols', coords')"
    and l: "label_cols class_table_dims cols' = Inr vars"
    and d: "Dataset vars coords' = Inr ds"
    by blast
  from read_cols_Inr [OF r] t have "cols = AList.delete ''APS_ID'' (swap_cols dat)"
    by auto
  with p have p': "promote np czz_axis (\<lambda>c. c) (map fst (AList.delete ''APS_ID'' (swap_cols dat)))
              (AList.delete ''APS_ID'' (swap_cols dat)) coords = Inr (cols', coords')"
    by simp
  note pr = promotion_returns [where taken = czz_axis and key = "\<lambda>c. c", OF dist c czz_axis_not_key [OF tk] tk p' l d]
  have "inj_on (\<lambda>c. c) {k \<in> fst ` set dat. czz_axis k}"
    by simp
  with pr(1) pr(2) pr(4) show ?thesis by blast
qed

lemma class_spec_returns:
  assumes t: "Table_read disk fn ''CLASS_SPEC'' = Inr dat"
    and dist: "distinct (map fst dat)"
    and c: "(c, col) \<in> set dat" and tk: "lambda_axis c"
    and ret: "read_class_spec np disk fn = Inr ds"
  shows "rows_agree np (rounded_mean np col) col \<and> c \<notin> fst ` set (ds_data_vars ds)
         \<and> lambda_key c \<in> fst ` set (ds_coords ds)
         \<and> (inj_on lambda_key {k \<in> fst ` set dat. lambda_axis k} \<longrightarrow>
              (\<exists>v. map_of (ds_coords ds) (lambda_key c) = Some v
                   \<and> payload v = Array (cell_shape col) (rounded_mean np col)))"
proof -
  from read_class_spec_Inr [OF ret] obtain cols coords cols' coords' vars where
    r: "read_cols disk fn ''CLASS_SPEC'' = Inr (cols, coords)"
    and p: "promote np lambda_axis lambda_key (map fst cols) cols coords = Inr (cols', coords')"
    and l: "label_cols class_spec_dims cols' = Inr vars"
    and d: "Dataset vars coords' = Inr ds"
    by blast
  from read_cols_Inr [OF r] t have "cols = AList.delete ''APS_ID'' (swap_cols dat)"
    by auto
  with p have p': "promote np lambda_axis lambda_key
              (map fst (AList.delete ''APS_ID'' (swap_cols dat)))
              (AList.delete ''APS_ID'' (swap_cols dat)) coords = Inr (cols', coords')"
    by simp
  note pr = promotion_returns [where taken = lambda_axis and key = lambda_key, OF dist c lambda_axis_not_key [OF tk] tk p' l d]
  from pr(1) pr(2) pr(3) pr(4) show ?thesis by blast
qed

subsection \<open>Splitting and joining\<close>

lemma str_split_not_Nil: "str_split c s \<noteq> []"
  by (cases s) (simp_all split: list.splits)

lemma str_split_free: "x \<in> set (str_split c s) \<Longrightarrow> c \<notin> set x"
proof (induction s arbitrary: x)
  case Nil
  then show ?case by simp
next
  case (Cons a s)
  obtain y ys where y: "str_split c s = y # ys"
    using str_split_not_Nil [of c s] by (cases "str_split c s") simp_all
  show ?case
  proof (cases "a = c")
    case True
    with Cons.prems y have "x = [] \<or> x \<in> set (str_split c s)" by simp
    with Cons.IH show ?thesis by auto
  next
    case False
    with Cons.prems y have "x = a # y \<or> x \<in> set ys" by simp
    moreover have "c \<notin> set y" using Cons.IH [of y] y by simp
    moreover have "x \<in> set ys \<Longrightarrow> c \<notin> set x" using Cons.IH [of x] y by simp
    ultimately show ?thesis using False by auto
  qed
qed

lemma str_split_none: "c \<notin> set x \<Longrightarrow> str_split c x = [x]"
proof (induction x)
  case Nil
  then show ?case by simp
next
  case (Cons a x)
  then have "a \<noteq> c" "str_split c x = [x]" by auto
  then show ?case by simp
qed

lemma str_split_at: "c \<notin> set x \<Longrightarrow> str_split c (x @ c # rest) = x # str_split c rest"
proof (induction x)
  case Nil
  then show ?case by simp
next
  case (Cons a x)
  then have "a \<noteq> c" "str_split c (x @ c # rest) = x # str_split c rest" by auto
  then show ?case by simp
qed

lemma str_split_join:
  "comps \<noteq> [] \<Longrightarrow> \<forall>x\<in>set comps. c \<notin> set x \<Longrightarrow> str_split c (str_join [c] comps) = comps"
proof (induction comps)
  case Nil
  then show ?case by simp
next
  case (Cons x comps)
  show ?case
  proof (cases comps)
    case Nil
    with Cons.prems show ?thesis by (simp add: str_split_none)
  next
    case (Cons y ys)
    with Cons.prems Cons.IH have "str_split c (str_join [c] comps) = comps" by simp
    with Cons Cons.prems show ?thesis by (simp add: str_split_at)
  qed
qed

lemma str_join_inject:
  assumes "as \<noteq> []" "bs \<noteq> []" "\<forall>x\<in>set as. c \<notin> set x" "\<forall>x\<in>set bs. c \<notin> set x"
    and "str_join [c] as = str_join [c] bs"
  shows "as = bs"
  using str_split_join [OF assms(1,3)] str_split_join [OF assms(2,4)] assms(5) by metis

text \<open>Joining components that are not empty and hold no separator.\<close>

lemma no_sep_suffix:
  assumes "b \<noteq> []" and "os_sep \<notin> set b"
  shows "\<not> suffix [os_sep] (p @ b)"
proof
  assume "suffix [os_sep] (p @ b)"
  then obtain q where "p @ b = q @ [os_sep]" by (auto simp: suffix_def)
  then have "last (p @ b) = os_sep" by simp
  with assms(1) have "last b = os_sep" by simp
  moreover from assms(1) have "last b \<in> set b" by (rule last_in_set)
  ultimately show False using assms(2) by simp
qed

lemma no_sep_prefix:
  assumes "b \<noteq> []" and "os_sep \<notin> set b"
  shows "\<not> prefix [os_sep] b"
  using assms by (cases b) simp_all

lemma foldl_join_step:
  "path \<noteq> [] \<Longrightarrow> \<not> suffix [os_sep] path \<Longrightarrow>
     \<forall>x\<in>set bs. x \<noteq> [] \<and> os_sep \<notin> set x \<Longrightarrow>
     foldl join_step path bs = path @ concat (map (\<lambda>b. os_sep # b) bs)"
proof (induction bs arbitrary: path)
  case Nil
  then show ?case by simp
next
  case (Cons b bs)
  from Cons.prems have b: "b \<noteq> []" "os_sep \<notin> set b"
    and bs: "\<forall>x\<in>set bs. x \<noteq> [] \<and> os_sep \<notin> set x"
    by simp_all
  from no_sep_suffix [OF b, of "path @ [os_sep]"]
  have ns: "\<not> suffix [os_sep] (path @ [os_sep] @ b)" by simp
  have ne: "path @ [os_sep] @ b \<noteq> []" by simp
  from Cons.prems(1,2) no_sep_prefix [OF b]
  have j: "join_step path b = path @ [os_sep] @ b"
    by (simp add: join_step_def)
  have "foldl join_step path (b # bs) = foldl join_step (path @ [os_sep] @ b) bs"
    by (simp add: j)
  also have "\<dots> = (path @ [os_sep] @ b) @ concat (map (\<lambda>b. os_sep # b) bs)"
    by (rule Cons.IH [OF ne ns bs])
  finally show ?case by simp
qed

lemma str_join_concat:
  "str_join [c] (b # bs) = b @ concat (map (\<lambda>x. c # x) bs)"
  by (induction bs arbitrary: b) simp_all

lemma os_path_join_parts:
  assumes "comps \<noteq> []" and "\<forall>x\<in>set comps. x \<noteq> [] \<and> os_sep \<notin> set x"
  shows "os_path_join a comps = join_head a @ str_join [os_sep] comps"
proof -
  from assms(1) obtain b bs where c: "comps = b # bs" by (cases comps) simp_all
  with assms(2) have b: "b \<noteq> []" "os_sep \<notin> set b"
    and bs: "\<forall>x\<in>set bs. x \<noteq> [] \<and> os_sep \<notin> set x"
    by simp_all
  from no_sep_prefix [OF b] have j: "join_step a b = join_head a @ b"
    by (simp add: join_step_def join_head_def)
  note ns = no_sep_suffix [OF b, of "join_head a"]
  from b have ne: "join_head a @ b \<noteq> []" by simp
  have "os_path_join a comps = foldl join_step (join_head a @ b) bs"
    by (simp add: os_path_join_def c j)
  also have "\<dots> = (join_head a @ b) @ concat (map (\<lambda>b. os_sep # b) bs)"
    by (rule foldl_join_step [OF ne ns bs])
  finally show ?thesis by (simp add: c str_join_concat)
qed

subsection \<open>The extension\<close>

lemma splitext_append: "fst (splitext p) @ snd (splitext p) = p"
proof -
  let ?tail = "basename p"
  let ?ext = "CHR ''.'' # rev (takeWhile (\<lambda>c. c \<noteq> CHR ''.'') (rev ?tail))"
  have d: "drop (length p - length ?ext) p = ?ext" if dot: "CHR ''.'' \<in> set ?tail"
  proof -
    from dot have "CHR ''.'' \<in> set (rev ?tail)" by simp
    then obtain us vs where r: "rev ?tail = us @ CHR ''.'' # vs" and us: "CHR ''.'' \<notin> set us"
      by (meson split_list_first)
    from us have tw: "takeWhile (\<lambda>c. c \<noteq> CHR ''.'') (rev ?tail) = us"
      unfolding r by (auto simp: takeWhile_tail)
    have "rev p = takeWhile (\<lambda>c. c \<noteq> os_sep) (rev p) @ dropWhile (\<lambda>c. c \<noteq> os_sep) (rev p)"
      by simp
    then have "rev p = rev ?tail @ dropWhile (\<lambda>c. c \<noteq> os_sep) (rev p)"
      by (simp add: basename_def)
    then have "p = rev (dropWhile (\<lambda>c. c \<noteq> os_sep) (rev p)) @ ?tail"
      by (metis rev_append rev_rev_ident)
    moreover from r have "?tail = rev vs @ CHR ''.'' # rev us"
      by (metis rev_append rev_rev_ident rev.simps(2) append_assoc append_Cons append_Nil)
    ultimately have p: "p = (rev (dropWhile (\<lambda>c. c \<noteq> os_sep) (rev p)) @ rev vs) @ (CHR ''.'' # rev us)"
      by simp
    have "drop (length p - length (CHR ''.'' # rev us)) p = CHR ''.'' # rev us"
      by (subst (1 2) p) simp
    then show ?thesis by (simp add: tw)
  qed
  have "take (length p - length ?ext) p @ ?ext = p" if "CHR ''.'' \<in> set ?tail"
    using d [OF that] append_take_drop_id [of "length p - length ?ext" p] by simp
  then show ?thesis
    by (simp add: splitext_def Let_def)
qed

lemma basename_after_dir:
  assumes "pre = [] \<or> suffix [os_sep] pre" and "os_sep \<notin> set f"
  shows "basename (pre @ f) = f"
proof -
  have "takeWhile (\<lambda>c. c \<noteq> os_sep) (rev pre) = []"
  proof (cases "pre = []")
    case True
    then show ?thesis by simp
  next
    case False
    with assms(1) obtain q where "pre = q @ [os_sep]" by (auto simp: suffix_def)
    then show ?thesis by simp
  qed
  moreover have "takeWhile (\<lambda>c. c \<noteq> os_sep) (rev f @ rev pre)
                   = rev f @ takeWhile (\<lambda>c. c \<noteq> os_sep) (rev pre)"
    by (rule takeWhile_append2) (use assms(2) in auto)
  ultimately have "takeWhile (\<lambda>c. c \<noteq> os_sep) (rev f @ rev pre) = rev f"
    by simp
  then show ?thesis by (simp add: basename_def)
qed

lemma splitext_after_dir:
  assumes pre: "pre = [] \<or> suffix [os_sep] pre" and f: "os_sep \<notin> set f"
  shows "splitext (pre @ f) = (pre @ fst (splitext f), snd (splitext f))"
proof -
  define ext where "ext = CHR ''.'' # rev (takeWhile (\<lambda>c. c \<noteq> CHR ''.'') (rev f))"
  define stem where "stem = take (length f - length ext) f"
  define has where "has \<longleftrightarrow> CHR ''.'' \<in> set f \<and> list_ex (\<lambda>c. c \<noteq> CHR ''.'') stem"
  have b1: "basename (pre @ f) = f" using pre f by (rule basename_after_dir)
  have b2: "basename f = f" using basename_after_dir [of "[]" f] f by simp
  have s1: "splitext (pre @ f)
              = (if has then (take (length (pre @ f) - length ext) (pre @ f), ext)
                 else (pre @ f, []))"
    unfolding splitext_def b1 Let_def has_def stem_def ext_def ..
  have s2: "splitext f = (if has then (stem, ext) else (f, []))"
    unfolding splitext_def b2 Let_def has_def stem_def ext_def ..
  show ?thesis
  proof (cases has)
    case True
    with s2 splitext_append [of f] have e: "stem @ ext = f" by simp
    have "take (length (pre @ stem @ ext) - length ext) (pre @ stem @ ext) = pre @ stem"
      by simp
    then have "take (length (pre @ f) - length ext) (pre @ f) = pre @ stem"
      unfolding e .
    with True s1 s2 show ?thesis by simp
  next
    case False
    with s1 s2 show ?thesis by simp
  qed
qed

lemma str_join_last:
  "comps \<noteq> [] \<Longrightarrow>
     str_join [c] comps = concat (map (\<lambda>x. x @ [c]) (butlast comps)) @ last comps"
proof (induction comps)
  case Nil
  then show ?case by simp
next
  case (Cons x comps)
  then show ?case by (cases comps) simp_all
qed

lemma concat_sep_dir:
  "concat (map (\<lambda>x. x @ [c]) xs) = [] \<or> suffix [c] (concat (map (\<lambda>x. x @ [c]) xs))"
proof (cases xs rule: rev_cases)
  case Nil
  then show ?thesis by simp
next
  case (snoc ys y)
  then show ?thesis by (simp add: suffix_def)
qed

lemma join_head_dir: "join_head a = [] \<or> suffix [os_sep] (join_head a)"
  by (simp add: join_head_def suffix_def)

text \<open>
  The path before the extension is taken off: a directory part, which is empty or
  ends in a separator, and the last component.
\<close>

lemma os_path_join_last:
  assumes "comps \<noteq> []" and "\<forall>x\<in>set comps. x \<noteq> [] \<and> os_sep \<notin> set x"
  shows "\<exists>dir. (dir = [] \<or> suffix [os_sep] dir)
           \<and> dir = join_head a @ concat (map (\<lambda>x. x @ [os_sep]) (butlast comps))
           \<and> os_path_join a comps = dir @ last comps
           \<and> splitext (os_path_join a comps)
               = (dir @ fst (splitext (last comps)), snd (splitext (last comps)))"
proof -
  let ?front = "concat (map (\<lambda>x. x @ [os_sep]) (butlast comps))"
  let ?dir = "join_head a @ ?front"
  have dir: "?dir = [] \<or> suffix [os_sep] ?dir"
  proof (cases "?front = []")
    case True
    with join_head_dir [of a] show ?thesis by simp
  next
    case False
    with concat_sep_dir [of os_sep "butlast comps"] have "suffix [os_sep] ?front" by simp
    then show ?thesis by (auto simp: suffix_def)
  qed
  from os_path_join_parts [OF assms] str_join_last [OF assms(1), of os_sep]
  have j: "os_path_join a comps = ?dir @ last comps" by simp
  from assms have "os_sep \<notin> set (last comps)" by simp
  from splitext_after_dir [OF dir this] j dir show ?thesis by simp
qed

subsection \<open>The canonical path\<close>

lemma source_parts_not_Nil: "source_parts fn \<noteq> []"
proof -
  have "0 < length (str_split os_sep (normpath fn))"
    using str_split_not_Nil [of os_sep "normpath fn"] by simp
  then have "\<not> length (str_split os_sep (normpath fn))
                 \<le> length (str_split os_sep (normpath fn)) - 3"
    by arith
  then show ?thesis
    by (simp add: source_parts_def last3_def)
qed

lemma source_parts_free: "x \<in> set (source_parts fn) \<Longrightarrow> os_sep \<notin> set x"
  unfolding source_parts_def last3_def
  by (rule str_split_free) (erule in_set_dropD)

lemma source_parts_ok:
  "[] \<notin> set (source_parts fn) \<Longrightarrow> \<forall>x\<in>set (source_parts fn). x \<noteq> [] \<and> os_sep \<notin> set x"
  using source_parts_free by blast

lemma cache_path_unfold:
  "cache_path store name fn
     = fst (splitext (os_path_join store (source_parts fn))) @ ''_'' @ table_name name @ ''.nc''"
  by (simp add: cache_path_def source_parts_def Let_def)

lemma str_replace_Nil: "old \<noteq> [] \<Longrightarrow> str_replace old new [] = []"
  by (subst str_replace.simps) simp

lemma str_replace_skip:
  "old \<noteq> [] \<Longrightarrow> \<not> prefix old (a # s) \<Longrightarrow> str_replace old new (a # s) = a # str_replace old new s"
  by (subst str_replace.simps) simp

lemma str_replace_absent:
  "old \<noteq> [] \<Longrightarrow> \<not> sublist old s \<Longrightarrow> str_replace old new s = s"
proof (induction s)
  case Nil
  then show ?case by (simp add: str_replace_Nil)
next
  case (Cons a s)
  from Cons.prems(2) have np: "\<not> prefix old (a # s)"
    by (meson prefix_imp_sublist)
  from Cons.prems(2) have "\<not> sublist old s"
    by (meson sublist_Cons_right)
  with Cons.IH Cons.prems(1) have "str_replace old new s = s" by simp
  with np Cons.prems(1) show ?case
    by (simp add: str_replace_skip)
qed

lemma underscore_split:
  assumes eq: "r1 @ ''_'' @ t1 = r2 @ ''_'' @ t2"
    and n1: "\<not> suffix (''_'' @ t1) t2" and n2: "\<not> suffix (''_'' @ t2) t1"
  shows "r1 = r2 \<and> t1 = t2"
proof -
  from iffD1 [OF append_eq_append_conv2, OF eq] obtain us where
    "(r1 = r2 @ us \<and> us @ ''_'' @ t1 = ''_'' @ t2) \<or> (r1 @ us = r2 \<and> ''_'' @ t1 = us @ ''_'' @ t2)"
    by blast
  then show ?thesis
  proof
    assume a: "r1 = r2 @ us \<and> us @ ''_'' @ t1 = ''_'' @ t2"
    show ?thesis
    proof (cases us)
      case Nil
      with a show ?thesis by simp
    next
      case (Cons u us')
      with a have "us' @ ''_'' @ t1 = t2" by simp
      then have "suffix (''_'' @ t1) t2" by (auto simp: suffix_def)
      with n1 show ?thesis by simp
    qed
  next
    assume a: "r1 @ us = r2 \<and> ''_'' @ t1 = us @ ''_'' @ t2"
    show ?thesis
    proof (cases us)
      case Nil
      with a show ?thesis by simp
    next
      case (Cons u us')
      with a have "t1 = us' @ ''_'' @ t2" by simp
      then have "suffix (''_'' @ t2) t1" by (auto simp: suffix_def)
      with n2 show ?thesis by simp
    qed
  qed
qed

text \<open>
  Claim C5, as the code has it.  For a cache root that is not empty and does not end
  in a separator, and a source file whose normalised path ends in the three segments
  \<open>d1\<close>, \<open>d2\<close> and \<open>f\<close>, none of them empty, the canonical path is the root, the two
  directories, and the file name without its extension followed by an underscore, the
  table name and \<^verbatim>\<open>.nc\<close>.  The table name is the reader's name with every \<^verbatim>\<open>read_\<close>
  removed: for a name \<^verbatim>\<open>read_\<close>\<open>t\<close> with no \<^verbatim>\<open>read_\<close> in \<open>t\<close>, it is \<open>t\<close>.
\<close>

theorem cache_path_format:
  assumes "source_parts fn = [d1, d2, f]" and "d1 \<noteq> []" and "d2 \<noteq> []" and "f \<noteq> []"
    and "cache_root \<noteq> []" and "\<not> suffix [os_sep] cache_root"
  shows "cache_path cache_root name fn
           = cache_root @ ''/'' @ d1 @ ''/'' @ d2 @ ''/'' @ fst (splitext f)
               @ ''_'' @ str_replace ''read_'' [] name @ ''.nc''
         \<and> (\<not> sublist ''read_'' t \<longrightarrow> str_replace ''read_'' [] (''read_'' @ t) = t)"
proof
  from assms(1-4) have "[] \<notin> set (source_parts fn)" by auto
  then have ok: "\<forall>x\<in>set (source_parts fn). x \<noteq> [] \<and> os_sep \<notin> set x"
    by (rule source_parts_ok)
  from os_path_join_last [OF source_parts_not_Nil ok, of cache_root]
  obtain dir where
    d: "dir = join_head cache_root @ concat (map (\<lambda>x. x @ [os_sep]) (butlast (source_parts fn)))"
    and sp: "splitext (os_path_join cache_root (source_parts fn))
               = (dir @ fst (splitext (last (source_parts fn))), snd (splitext (last (source_parts fn))))"
    by blast
  from assms(5,6) have h: "join_head cache_root = cache_root @ ''/''"
    by (simp add: join_head_def os_sep_def)
  from d h assms(1) have "dir = cache_root @ ''/'' @ d1 @ ''/'' @ d2 @ ''/''"
    by (simp add: os_sep_def)
  with sp assms(1)
  have "fst (splitext (os_path_join cache_root (source_parts fn)))
          = cache_root @ ''/'' @ d1 @ ''/'' @ d2 @ ''/'' @ fst (splitext f)"
    by simp
  then show "cache_path cache_root name fn
           = cache_root @ ''/'' @ d1 @ ''/'' @ d2 @ ''/'' @ fst (splitext f)
               @ ''_'' @ str_replace ''read_'' [] name @ ''.nc''"
    unfolding cache_path_unfold table_name_def by simp
next
  show "\<not> sublist ''read_'' t \<longrightarrow> str_replace ''read_'' [] (''read_'' @ t) = t"
  proof
    assume "\<not> sublist ''read_'' t"
    then have "str_replace ''read_'' [] t = t"
      by (intro str_replace_absent) simp_all
    with str_replace_at_old [of "''read_''" "[]" t] show "str_replace ''read_'' [] (''read_'' @ t) = t"
      by simp
  qed
qed

theorem cache_path_format_witness:
  "cache_path ''/store'' ''read_class_table'' stack_1
     = ''/store/L2/20230101/stack_1_class_table.nc''"
proof -
  have p: "source_parts stack_1 = [''L2'', ''20230101'', ''stack_1.fits'']"
    by code_simp
  have s: "\<not> suffix [os_sep] ''/store''"
    by code_simp
  have e: "fst (splitext ''stack_1.fits'') = ''stack_1''"
    by code_simp
  have n: "\<not> sublist ''read_'' ''class_table''"
    by code_simp
  from cache_path_format [OF p _ _ _ _ s, of "''read_class_table''" "''class_table''"] n
  have "cache_path ''/store'' ''read_class_table'' stack_1
          = ''/store'' @ ''/'' @ ''L2'' @ ''/'' @ ''20230101'' @ ''/'' @ fst (splitext ''stack_1.fits'')
              @ ''_'' @ ''class_table'' @ ''.nc''"
    by simp
  then show ?thesis
    unfolding e by simp
qed

text \<open>
  The format as the specification words it puts the base name after all three of the
  last segments, so after the file name itself; the code has the base name in place of
  the third segment.
\<close>

theorem spec_format_counterexample:
  "cache_path ''/store'' ''read_class_table'' stack_1
     = ''/store/L2/20230101/stack_1_class_table.nc''
   \<and> spec_cache_path ''/store'' ''read_class_table'' stack_1
       = ''/store/L2/20230101/stack_1.fits/stack_1_class_table.nc''
   \<and> cache_path ''/store'' ''read_class_table'' stack_1
       \<noteq> spec_cache_path ''/store'' ''read_class_table'' stack_1"
  by code_simp

text \<open>The table names of the six readers meet the condition on table names below.\<close>

lemma reader_tables_unambiguous:
  "list_all (\<lambda>n1. list_all (\<lambda>n2. \<not> suffix (''_'' @ table_name n1) (table_name n2))
               reader_names) reader_names"
  by code_simp

text \<open>
  Claim C3, as the code has it.  Take two readers and two source files, under one
  store, such that no component among the last three of either normalised path is
  empty, both file names have the same extension, and neither table name ends in an
  underscore followed by the other.  If the table names differ or the last three
  components differ, the canonical paths differ.
\<close>

theorem cache_paths_distinct:
  assumes ne1: "[] \<notin> set (source_parts f1)" and ne2: "[] \<notin> set (source_parts f2)"
    and ext: "snd (splitext (last (source_parts f1))) = snd (splitext (last (source_parts f2)))"
    and t12: "\<not> suffix (''_'' @ table_name n1) (table_name n2)"
    and t21: "\<not> suffix (''_'' @ table_name n2) (table_name n1)"
    and differ: "table_name n1 \<noteq> table_name n2 \<or> source_parts f1 \<noteq> source_parts f2"
  shows "cache_path store n1 f1 \<noteq> cache_path store n2 f2"
proof
  assume same: "cache_path store n1 f1 = cache_path store n2 f2"
  let ?j1 = "os_path_join store (source_parts f1)"
  let ?j2 = "os_path_join store (source_parts f2)"
  note ok1 = source_parts_ok [OF ne1]
  note ok2 = source_parts_ok [OF ne2]
  from same have "fst (splitext ?j1) @ ''_'' @ table_name n1
                    = fst (splitext ?j2) @ ''_'' @ table_name n2"
    by (simp add: cache_path_unfold)
  from underscore_split [OF this t12 t21]
  have root: "fst (splitext ?j1) = fst (splitext ?j2)" and tab: "table_name n1 = table_name n2"
    by simp_all
  from os_path_join_last [OF source_parts_not_Nil ok1, of store]
  have e1: "snd (splitext ?j1) = snd (splitext (last (source_parts f1)))"
    by auto
  from os_path_join_last [OF source_parts_not_Nil ok2, of store]
  have e2: "snd (splitext ?j2) = snd (splitext (last (source_parts f2)))"
    by auto
  from splitext_append [of ?j1] splitext_append [of ?j2] root e1 e2 ext
  have "?j1 = ?j2" by simp
  with os_path_join_parts [OF source_parts_not_Nil ok1, of store]
    os_path_join_parts [OF source_parts_not_Nil ok2, of store]
  have "str_join [os_sep] (source_parts f1) = str_join [os_sep] (source_parts f2)"
    by simp
  moreover have "\<forall>x\<in>set (source_parts f1). os_sep \<notin> set x"
    and "\<forall>x\<in>set (source_parts f2). os_sep \<notin> set x"
    using ok1 ok2 by simp_all
  ultimately have "source_parts f1 = source_parts f2"
    using str_join_inject [OF source_parts_not_Nil source_parts_not_Nil] by blast
  with tab differ show False by simp
qed

theorem cache_paths_distinct_witness:
  "cache_path ''/store'' ''read_class_table'' stack_1 \<noteq> cache_path ''/store'' ''read_star_table'' stack_1
   \<and> cache_path ''/store'' ''read_class_table'' stack_1 \<noteq> cache_path ''/store'' ''read_class_table'' stack_2"
proof -
  have n: "[] \<notin> set (source_parts stack_1)" "[] \<notin> set (source_parts stack_2)"
    by code_simp+
  have e: "snd (splitext (last (source_parts stack_1))) = snd (splitext (last (source_parts stack_1)))"
    "snd (splitext (last (source_parts stack_1))) = snd (splitext (last (source_parts stack_2)))"
    by code_simp+
  have t: "\<not> suffix (''_'' @ table_name ''read_class_table'') (table_name ''read_star_table'')"
    "\<not> suffix (''_'' @ table_name ''read_star_table'') (table_name ''read_class_table'')"
    "\<not> suffix (''_'' @ table_name ''read_class_table'') (table_name ''read_class_table'')"
    by code_simp+
  have d: "table_name ''read_class_table'' \<noteq> table_name ''read_star_table''"
    "source_parts stack_1 \<noteq> source_parts stack_2"
    by code_simp+
  from cache_paths_distinct [OF n(1) n(1) e(1) t(1) t(2), of "''/store''"] d(1)
    cache_paths_distinct [OF n(1) n(2) e(2) t(3) t(3), of "''/store''"] d(2)
  show ?thesis by simp
qed

text \<open>
  The claim as the specification states it fails.  Two files that differ in their
  extension only, two files of which one is given by an absolute path of two
  components and the other by a relative one, and two readers of which one has the
  table name of the other after an underscore, each share a canonical path.
\<close>

theorem cache_paths_collide_counterexample:
  "source_parts ''/data/L2/20230101/stack_1.fits'' \<noteq> source_parts ''/data/L2/20230101/stack_1.fit''
   \<and> cache_path ''/store'' ''read_class_table'' ''/data/L2/20230101/stack_1.fits''
       = cache_path ''/store'' ''read_class_table'' ''/data/L2/20230101/stack_1.fit''
   \<and> source_parts ''/20230101/stack_1.fits'' \<noteq> source_parts ''20230101/stack_1.fits''
   \<and> cache_path ''/store'' ''read_class_table'' ''/20230101/stack_1.fits''
       = cache_path ''/store'' ''read_class_table'' ''20230101/stack_1.fits''
   \<and> table_name ''read_table'' \<noteq> table_name ''read_class_table''
   \<and> cache_path ''/store'' ''read_table'' ''/data/L2/20230101/stack_1_class.fits''
       = cache_path ''/store'' ''read_class_table'' ''/data/L2/20230101/stack_1.fits''"
  by code_simp

end
